theory Spec2Isabelle
  imports Main "HOL-Library.Sublist"
begin

section \<open>The monthly account balance workflow\<close>

text \<open>
  A shallow embedding of
  \<^verbatim>\<open>dags/account_monthly_balance_generation/account_monthly_balance_generation.py\<close>.

  Python strings are modelled by \<^typ>\<open>string\<close>, holding the UTF-8 bytes of the text:
  concatenation of Python strings is concatenation of their encodings, and the source
  only concatenates and compares strings. The dictionary \<^verbatim>\<open>PARAMS_DEFINITION\<close>
  is a map from keys to values (all its values are strings); reading a missing key
  raises \<^verbatim>\<open>KeyError\<close>.
\<close>

subsection \<open>Errors\<close>

datatype error =
    KeyError string
  | AirflowNotFoundException string
  | WarehouseError
  | SigningError
  | XComNotFound
  | WebhookError

subsection \<open>The run configuration (lines 45 to 57)\<close>

type_synonym params = "string \<rightharpoonup> string"

definition getitem :: "params \<Rightarrow> string \<Rightarrow> error + string" where
  "getitem P k = (case P k of None \<Rightarrow> Inl (KeyError k) | Some v \<Rightarrow> Inr v)"

text \<open>
  \<^verbatim>\<open>os.path.join(a, b)\<close> on two components (POSIX): an absolute second component
  replaces the first; otherwise a slash is inserted unless the first component is
  empty or already ends with one.
\<close>

definition path_join :: "string \<Rightarrow> string \<Rightarrow> string" where
  "path_join a b =
     (if b \<noteq> [] \<and> hd b = CHR ''/'' then b
      else if a = [] \<or> last a = CHR ''/'' then a @ b
      else a @ ''/'' @ b)"

text \<open>
  The mapping depends on the directory of the module,
  \<^verbatim>\<open>os.path.dirname(__file__)\<close>, which is the parameter \<open>dirname\<close>.
\<close>

definition PARAMS_DEFINITION :: "string \<Rightarrow> params" where
  "PARAMS_DEFINITION dirname = map_of
     [(''snowflake_conn_id'', ''snowflake_conn_id''),
      (''aws_conn_id'', ''aws_conn_id''),
      (''queries_base_path'', path_join dirname ''queries''),
      (''db'', ''NU_CO_DEV_BUSINESS''),
      (''schema_origin'', ''POSTGRES_RDS_PUBLIC''),
      (''schema_destination'', ''FINANCE_SILVER_TABLES''),
      (''stage'', ''@NU_CO_DEV_BUSINESS.POSTGRES_RDS_PUBLIC.S3_STAGE_STUDY_CASE''),
      (''path'', ''output_files''),
      (''bucket_s3'', ''terraform-nu-db-pg-48baa6b7''),
      (''filename'', ''account_monthly_balance.csv''),
      (''files_dir'', path_join ''/tmp'' ''balance'')]"

subsection \<open>The workflow definition (lines 59 to 83 and 115 to 123)\<close>

datatype task = CreateTableSnowflake | LoadToS3 | GeneratePresignedUrl | NotifySlack

fun task_id :: "task \<Rightarrow> string" where
  "task_id CreateTableSnowflake = ''create_table_snowflake''"
| "task_id LoadToS3 = ''load_to_s3''"
| "task_id GeneratePresignedUrl = ''generate_presigned_url''"
| "task_id NotifySlack = ''notify_slack''"

text \<open>The tasks in the order the workflow function creates them.\<close>

definition all_tasks :: "task list" where
  "all_tasks = [CreateTableSnowflake, LoadToS3, GeneratePresignedUrl, NotifySlack]"

record sql_operator =
  sql :: string
  conn_id :: string
  op_params :: params

record default_args =
  owner :: string
  retries :: nat

record dag =
  template_searchpath :: string
  dag_default_args :: default_args
  create_table_snowflake :: sql_operator
  load_to_s3 :: sql_operator
  presigned_url_args :: "string \<times> string \<times> int"
  task_retries :: "task \<Rightarrow> nat option"
  edges :: "(task \<times> task) list"

text \<open>
  \<^verbatim>\<open>a >> b\<close> records \<open>b\<close> as a downstream task of \<open>a\<close>; the workflow keeps
  the downstream tasks of a task as a set, so recording an edge twice changes nothing.
\<close>

definition rshift :: "task \<Rightarrow> task \<Rightarrow> (task \<times> task) list \<Rightarrow> (task \<times> task) list" where
  "rshift a b es = (if (a, b) \<in> set es then es else es @ [(a, b)])"

text \<open>
  The body of the decorated function. The keys of the configuration are read in the
  order the interpreter reads them: the decorator's arguments first (line 62), then
  the two SQL operators, then the arguments of the link generator. No operator and
  no decorated task is given a \<^verbatim>\<open>retries\<close> argument of its own. Line 115 chains
  the two SQL tasks; in line 123 \<^verbatim>\<open>load_to_s3 >> presigned_url\<close> is evaluated
  first, then the call \<^verbatim>\<open>notify_slack(presigned_url)\<close>, whose argument makes the
  link generator an upstream task of the notifier, then the second \<^verbatim>\<open>>>\<close>.
\<close>

definition account_monthly_balance_generation :: "params \<Rightarrow> error + dag" where
  "account_monthly_balance_generation P =
     (case getitem P ''queries_base_path'' of Inl e \<Rightarrow> Inl e | Inr searchpath \<Rightarrow>
     (case getitem P ''snowflake_conn_id'' of Inl e \<Rightarrow> Inl e | Inr sf \<Rightarrow>
     (case getitem P ''bucket_s3'' of Inl e \<Rightarrow> Inl e | Inr bucket \<Rightarrow>
     (case getitem P ''path'' of Inl e \<Rightarrow> Inl e | Inr path \<Rightarrow>
     (case getitem P ''filename'' of Inl e \<Rightarrow> Inl e | Inr filename \<Rightarrow>
      Inr \<lparr> template_searchpath = searchpath,
            dag_default_args = \<lparr> owner = ''AFMP'', retries = 3 \<rparr>,
            create_table_snowflake =
              \<lparr> sql = ''create_table_snowflake.sql'', conn_id = sf, op_params = P \<rparr>,
            load_to_s3 =
              \<lparr> sql = ''load_to_s3.sql'', conn_id = sf, op_params = P \<rparr>,
            presigned_url_args = (bucket, path @ ''/'' @ filename, 604800),
            task_retries = (\<lambda>t. None),
            edges =
              rshift GeneratePresignedUrl NotifySlack
                (rshift GeneratePresignedUrl NotifySlack
                  (rshift LoadToS3 GeneratePresignedUrl
                    (rshift CreateTableSnowflake LoadToS3 []))) \<rparr>)))))"

subsection \<open>Connections and the external services\<close>

text \<open>
  A connection of the orchestration engine's registry, with the fields the source
  reads: \<^verbatim>\<open>login\<close>, \<^verbatim>\<open>password\<close> (either may be absent) and the decoded
  \<^verbatim>\<open>extra\<close> dictionary.
\<close>

record connection =
  login :: "string option"
  password :: "string option"
  extra_dejson :: "string \<rightharpoonup> string"

record boto3_session =
  aws_access_key_id :: "string option"
  aws_secret_access_key :: "string option"
  region_name :: string

record boto3_client =
  service_name :: string
  client_access_key_id :: "string option"
  client_secret_access_key :: "string option"
  client_region_name :: string

record presign_request =
  ClientMethod :: string
  Bucket :: string
  Key :: string
  ExpiresIn :: int

record slack_post =
  slack_webhook_conn_id :: string
  message :: string
  username :: string

text \<open>
  The services the workflow calls are outside the repository; their answers are the
  fields of an environment. \<open>get_connection\<close> is the connection registry
  (\<^verbatim>\<open>BaseHook.get_connection\<close> raises when the name is unknown), \<open>warehouse\<close> tells
  whether the warehouse runs a statement, \<open>s3_sign\<close> is the signing of a request by
  a client (it may refuse), \<open>webhook\<close> tells whether the chat service accepts a post.
\<close>

record env =
  get_connection :: "string \<rightharpoonup> connection"
  warehouse :: "connection \<Rightarrow> string \<Rightarrow> params \<Rightarrow> bool"
  s3_sign :: "boto3_client \<Rightarrow> presign_request \<Rightarrow> string option"
  webhook :: "slack_post \<Rightarrow> bool"

text \<open>\<^verbatim>\<open>d.get(k, default)\<close>\<close>

definition dict_get :: "('k \<rightharpoonup> 'v) \<Rightarrow> 'k \<Rightarrow> 'v \<Rightarrow> 'v" where
  "dict_get d k dflt = (case d k of None \<Rightarrow> dflt | Some v \<Rightarrow> v)"

text \<open>
  \<^verbatim>\<open>session.client(service, region_name=r)\<close>: the client carries the session's
  credentials; its region is the argument when one is given and the session's region
  otherwise.
\<close>

definition session_client :: "boto3_session \<Rightarrow> string \<Rightarrow> string option \<Rightarrow> boto3_client" where
  "session_client sess service r =
     \<lparr> service_name = service,
       client_access_key_id = aws_access_key_id sess,
       client_secret_access_key = aws_secret_access_key sess,
       client_region_name = (case r of None \<Rightarrow> region_name sess | Some r' \<Rightarrow> r') \<rparr>"

subsection \<open>The SQL steps (lines 71 to 83)\<close>

text \<open>
  Executing an SQL operator resolves its connection and runs its statement with its
  parameters; the result is not used downstream.
\<close>

definition execute_sql :: "env \<Rightarrow> sql_operator \<Rightarrow> error + unit" where
  "execute_sql env op =
     (case get_connection env (conn_id op) of
        None \<Rightarrow> Inl (AirflowNotFoundException (conn_id op))
      | Some c \<Rightarrow> if warehouse env c (sql op) (op_params op) then Inr () else Inl WarehouseError)"

subsection \<open>The link generator (lines 85 to 104)\<close>

text \<open>The local \<^verbatim>\<open>session\<close> of lines 88 to 94, for the resolved connection.\<close>

definition session :: "connection \<Rightarrow> boto3_session" where
  "session conn =
     (let extras = extra_dejson conn
      in \<lparr> aws_access_key_id = login conn,
           aws_secret_access_key = password conn,
           region_name = dict_get extras ''region_name'' ''us-east-1'' \<rparr>)"

text \<open>The local \<^verbatim>\<open>s3\<close> of line 96.\<close>

definition s3 :: "connection \<Rightarrow> boto3_client" where
  "s3 conn = session_client (session conn) ''s3'' (Some ''us-east-1'')"

text \<open>
  The connection name is read from the module's configuration \<open>P\<close> when the task
  runs (line 87).
\<close>

definition generate_presigned_url ::
  "env \<Rightarrow> params \<Rightarrow> string \<Rightarrow> string \<Rightarrow> int \<Rightarrow> error + string" where
  "generate_presigned_url env P bucket_name object_key expires_in_sec =
     (case getitem P ''aws_conn_id'' of Inl e \<Rightarrow> Inl e | Inr name \<Rightarrow>
     (case get_connection env name of
        None \<Rightarrow> Inl (AirflowNotFoundException name)
      | Some conn \<Rightarrow>
     (case s3_sign env (s3 conn)
             \<lparr> ClientMethod = ''get_object'', Bucket = bucket_name, Key = object_key,
               ExpiresIn = expires_in_sec \<rparr> of
        None \<Rightarrow> Inl SigningError
      | Some url \<Rightarrow> Inr url)))"

subsection \<open>The notifier (lines 106 to 113)\<close>

text \<open>
  The text of the f-string of line 111. The check mark U+2705 is the three bytes
  E2 9C 85 in UTF-8.
\<close>

definition slack_message :: "string \<Rightarrow> string" where
  "slack_message url =
     [CHR 0xE2, CHR 0x9C, CHR 0x85] @ '' CSV file for monthly account balance is available at:''
       @ [CHR 0x0A] @ url"

text \<open>
  The operator built in lines 108 to 113 (its task id is \<^verbatim>\<open>send_slack_message\<close>),
  as the post it makes: the connection name and the user name are literals.
\<close>

definition send_slack_message :: "string \<Rightarrow> slack_post" where
  "send_slack_message url =
     \<lparr> slack_webhook_conn_id = ''slack_webhook_conn'',
       message = slack_message url,
       username = ''airflow-bot'' \<rparr>"

text \<open>
  The notifier executes that operator on the channel, whose messages so far are
  \<open>log\<close>: an accepted post is appended, a rejected one raises.
\<close>

definition notify_slack :: "env \<Rightarrow> string \<Rightarrow> slack_post list \<Rightarrow> error + slack_post list" where
  "notify_slack env url log =
     (let post = send_slack_message url
      in if webhook env post then Inr (log @ [post]) else Inl WebhookError)"

subsection \<open>Runs of the workflow\<close>

text \<open>
  The orchestration engine is outside the repository. A run is modelled by the
  engine's rules that the workflow relies on, none of which the source overrides:
  a task instance starts only when every upstream task has succeeded (the default
  trigger rule); a failed attempt is retried while the attempt number does not
  exceed the task's \<^verbatim>\<open>retries\<close>, and fails the task otherwise; a task that has
  not started and has a failed upstream task is marked \<^verbatim>\<open>upstream_failed\<close>. The
  engine may start any task that is ready, so nothing in the rules themselves keeps
  two tasks from running at once.
\<close>

datatype ti_state = NoStatus | Running | Success | UpForRetry | Failed | UpstreamFailed

record run_state =
  params_definition :: params
  st :: "task \<Rightarrow> ti_state"
  try_number :: "task \<Rightarrow> nat"
  started :: "task list"
  xcom :: "string option"
  slack_log :: "slack_post list"

definition init :: "params \<Rightarrow> slack_post list \<Rightarrow> run_state" where
  "init P log =
     \<lparr> params_definition = P, st = (\<lambda>t. NoStatus), try_number = (\<lambda>t. 0), started = [],
       xcom = None, slack_log = log \<rparr>"

text \<open>
  What one attempt of a task does to the state of the run. The link generator's
  return value is kept for the notifier, which receives it as its argument.
\<close>

fun execute :: "dag \<Rightarrow> env \<Rightarrow> task \<Rightarrow> run_state \<Rightarrow> error + run_state" where
  "execute D env CreateTableSnowflake s =
     (case execute_sql env (create_table_snowflake D) of Inl e \<Rightarrow> Inl e | Inr u \<Rightarrow> Inr s)"
| "execute D env LoadToS3 s =
     (case execute_sql env (load_to_s3 D) of Inl e \<Rightarrow> Inl e | Inr u \<Rightarrow> Inr s)"
| "execute D env GeneratePresignedUrl s =
     (case presigned_url_args D of (bucket_name, object_key, expires_in_sec) \<Rightarrow>
     (case generate_presigned_url env (params_definition s) bucket_name object_key expires_in_sec of
        Inl e \<Rightarrow> Inl e
      | Inr url \<Rightarrow> Inr (s\<lparr>xcom := Some url\<rparr>)))"
| "execute D env NotifySlack s =
     (case xcom s of
        None \<Rightarrow> Inl XComNotFound
      | Some url \<Rightarrow>
     (case notify_slack env url (slack_log s) of
        Inl e \<Rightarrow> Inl e
      | Inr log \<Rightarrow> Inr (s\<lparr>slack_log := log\<rparr>)))"

definition upstream :: "dag \<Rightarrow> task \<Rightarrow> task list" where
  "upstream D t = map fst (filter (\<lambda>e. snd e = t) (edges D))"

definition leaves :: "dag \<Rightarrow> task list" where
  "leaves D = filter (\<lambda>t. \<forall>e \<in> set (edges D). fst e \<noteq> t) all_tasks"

text \<open>A task's own \<^verbatim>\<open>retries\<close> argument wins over the workflow's default.\<close>

definition retries_of :: "dag \<Rightarrow> task \<Rightarrow> nat" where
  "retries_of D t =
     (case task_retries D t of None \<Rightarrow> retries (dag_default_args D) | Some r \<Rightarrow> r)"

datatype event = Start task | Finish task env | MarkUpstreamFailed task

fun step :: "dag \<Rightarrow> event \<Rightarrow> run_state \<Rightarrow> run_state option" where
  "step D (Start t) s =
     (if (st s t = NoStatus \<or> st s t = UpForRetry) \<and> (\<forall>u \<in> set (upstream D t). st s u = Success)
      then Some (s\<lparr> st := (st s)(t := Running),
                    try_number := (try_number s)(t := try_number s t + 1),
                    started := started s @ [t] \<rparr>)
      else None)"
| "step D (Finish t env) s =
     (if st s t = Running
      then (case execute D env t s of
              Inr s' \<Rightarrow> Some (s'\<lparr> st := (st s')(t := Success) \<rparr>)
            | Inl e \<Rightarrow>
                Some (s\<lparr> st := (st s)(t := if try_number s t \<le> retries_of D t
                                            then UpForRetry else Failed) \<rparr>))
      else None)"
| "step D (MarkUpstreamFailed t) s =
     (if st s t = NoStatus \<and> (\<exists>u \<in> set (upstream D t). st s u = Failed \<or> st s u = UpstreamFailed)
      then Some (s\<lparr> st := (st s)(t := UpstreamFailed) \<rparr>)
      else None)"

fun run :: "dag \<Rightarrow> event list \<Rightarrow> run_state \<Rightarrow> run_state option" where
  "run D [] s = Some s"
| "run D (e # es) s = (case step D e s of None \<Rightarrow> None | Some s' \<Rightarrow> run D es s')"

text \<open>
  The state of the run as a whole: running while a task is unfinished, then failed
  when a leaf task has failed or was never run, and successful otherwise.
\<close>

datatype dag_run_state = RunRunning | RunSuccess | RunFailed

definition finished :: "ti_state \<Rightarrow> bool" where
  "finished x = (x = Success \<or> x = Failed \<or> x = UpstreamFailed)"

definition run_state_of :: "dag \<Rightarrow> run_state \<Rightarrow> dag_run_state" where
  "run_state_of D s =
     (if \<exists>t \<in> set all_tasks. \<not> finished (st s t) then RunRunning
      else if \<exists>t \<in> set (leaves D). st s t = Failed \<or> st s t = UpstreamFailed then RunFailed
      else RunSuccess)"

subsection \<open>Invariants of a run\<close>

text \<open>A task instance is active once it has been started.\<close>

definition active :: "ti_state \<Rightarrow> bool" where
  "active x = (x = Running \<or> x = Success \<or> x = UpForRetry \<or> x = Failed)"

text \<open>A task instance is unfinished while the engine can still change its state.\<close>

definition unfinished :: "ti_state \<Rightarrow> bool" where
  "unfinished x = (x = NoStatus \<or> x = UpForRetry \<or> x = Running)"

text \<open>
  The states an upstream task and its downstream task can be in together: the
  downstream task has been touched only after the upstream task has finished, and
  started only after it has succeeded.
\<close>

fun edge_ok :: "ti_state \<Rightarrow> ti_state \<Rightarrow> bool" where
  "edge_ok Success d = True"
| "edge_ok Failed d = (d = NoStatus \<or> d = UpstreamFailed)"
| "edge_ok UpstreamFailed d = (d = NoStatus \<or> d = UpstreamFailed)"
| "edge_ok u d = (d = NoStatus)"

definition chain_inv :: "dag \<Rightarrow> run_state \<Rightarrow> bool" where
  "chain_inv D s = (\<forall>e \<in> set (edges D). edge_ok (st s (fst e)) (st s (snd e)))"

text \<open>The log of starts, repeated attempts merged, lists the active tasks in order.\<close>

definition log_inv :: "run_state \<Rightarrow> bool" where
  "log_inv s = (remdups_adj (started s) = filter (\<lambda>t. active (st s t)) all_tasks)"

text \<open>
  The channel holds one more message than at the start of the run, the link
  generator's return value in the notifier's text, exactly when the notifier has
  succeeded.
\<close>

definition slack_inv :: "slack_post list \<Rightarrow> run_state \<Rightarrow> bool" where
  "slack_inv log0 s =
     (if st s NotifySlack = Success
      then \<exists>url. xcom s = Some url \<and> slack_log s = log0 @ [send_slack_message url]
      else slack_log s = log0)"

text \<open>The tasks after a task in the order of the workflow.\<close>

definition later_tasks :: "task \<Rightarrow> task list" where
  "later_tasks t = tl (dropWhile (\<lambda>u. u \<noteq> t) all_tasks)"

definition earlier_tasks :: "task \<Rightarrow> task list" where
  "earlier_tasks t = takeWhile (\<lambda>u. u \<noteq> t) all_tasks"

subsection \<open>Example inputs\<close>

text \<open>A module directory, the workflow it defines, a connection and two environments.\<close>

definition example_dirname :: string where
  "example_dirname = ''/opt/airflow/dags/account_monthly_balance_generation''"

definition example_dag :: dag where
  "example_dag =
     \<lparr> template_searchpath = ''/opt/airflow/dags/account_monthly_balance_generation/queries'',
       dag_default_args = \<lparr> owner = ''AFMP'', retries = 3 \<rparr>,
       create_table_snowflake =
         \<lparr> sql = ''create_table_snowflake.sql'', conn_id = ''snowflake_conn_id'',
           op_params = PARAMS_DEFINITION example_dirname \<rparr>,
       load_to_s3 =
         \<lparr> sql = ''load_to_s3.sql'', conn_id = ''snowflake_conn_id'',
           op_params = PARAMS_DEFINITION example_dirname \<rparr>,
       presigned_url_args =
         (''terraform-nu-db-pg-48baa6b7'', ''output_files/account_monthly_balance.csv'', 604800),
       task_retries = (\<lambda>t. None),
       edges = [(CreateTableSnowflake, LoadToS3), (LoadToS3, GeneratePresignedUrl),
                (GeneratePresignedUrl, NotifySlack)] \<rparr>"

definition example_conn :: connection where
  "example_conn =
     \<lparr> login = Some ''AKIAEXAMPLE'', password = Some ''secret'',
       extra_dejson = [''region_name'' \<mapsto> ''eu-west-1''] \<rparr>"

definition example_env :: env where
  "example_env =
     \<lparr> get_connection = (\<lambda>name. Some example_conn),
       warehouse = (\<lambda>c q p. True),
       s3_sign = (\<lambda>c r. Some (''https://'' @ Bucket r @ ''.s3.amazonaws.com/'' @ Key r)),
       webhook = (\<lambda>p. True) \<rparr>"

definition example_url :: string where
  "example_url =
     ''https://terraform-nu-db-pg-48baa6b7.s3.amazonaws.com/output_files/account_monthly_balance.csv''"

definition failing_env :: env where
  "failing_env = example_env \<lparr> get_connection := (\<lambda>name. None) \<rparr>"

definition success_events :: "event list" where
  "success_events =
     [Start CreateTableSnowflake, Finish CreateTableSnowflake example_env,
      Start LoadToS3, Finish LoadToS3 example_env,
      Start GeneratePresignedUrl, Finish GeneratePresignedUrl example_env,
      Start NotifySlack, Finish NotifySlack example_env]"

definition failure_events :: "event list" where
  "failure_events =
     [Start CreateTableSnowflake, Finish CreateTableSnowflake example_env,
      Start LoadToS3, Finish LoadToS3 failing_env,
      Start LoadToS3, Finish LoadToS3 failing_env,
      Start LoadToS3, Finish LoadToS3 failing_env,
      Start LoadToS3, Finish LoadToS3 failing_env]"

text \<open>
  The attempts of a task against its retries \<open>r\<close>: a task that was never started has
  made none, a task waiting for a retry has made at most \<open>r\<close>, a task that has failed
  for good has made \<open>r + 1\<close>, and no task has made more.
\<close>

fun try_ok :: "nat \<Rightarrow> ti_state \<Rightarrow> nat \<Rightarrow> bool" where
  "try_ok r NoStatus n = (n = 0)"
| "try_ok r UpstreamFailed n = (n = 0)"
| "try_ok r UpForRetry n = (1 \<le> n \<and> n \<le> r)"
| "try_ok r Failed n = (n = r + 1)"
| "try_ok r Running n = (1 \<le> n \<and> n \<le> r + 1)"
| "try_ok r Success n = (1 \<le> n \<and> n \<le> r + 1)"

text \<open>The attempt number of a task counts its starts in the log.\<close>

definition try_inv :: "dag \<Rightarrow> run_state \<Rightarrow> bool" where
  "try_inv D s =
     (\<forall>t. try_ok (retries_of D t) (st s t) (try_number s t) \<and>
          try_number s t = length (filter (\<lambda>u. u = t) (started s)))"

text \<open>The state of the example run in which the loader has used up its attempts.\<close>

definition example_failed_state :: run_state where
  "example_failed_state =
     \<lparr> params_definition = PARAMS_DEFINITION example_dirname,
       st = (\<lambda>t. NoStatus)(CreateTableSnowflake := Success, LoadToS3 := Failed),
       try_number = (\<lambda>t. 0)(CreateTableSnowflake := 1, LoadToS3 := 4),
       started = [CreateTableSnowflake, LoadToS3, LoadToS3, LoadToS3, LoadToS3],
       xcom = None, slack_log = [] \<rparr>"

section \<open>Properties of the workflow definition\<close>

lemma params_lookup:
  "PARAMS_DEFINITION d ''snowflake_conn_id'' = Some ''snowflake_conn_id''"
  "PARAMS_DEFINITION d ''aws_conn_id'' = Some ''aws_conn_id''"
  "PARAMS_DEFINITION d ''queries_base_path'' = Some (path_join d ''queries'')"
  "PARAMS_DEFINITION d ''path'' = Some ''output_files''"
  "PARAMS_DEFINITION d ''bucket_s3'' = Some ''terraform-nu-db-pg-48baa6b7''"
  "PARAMS_DEFINITION d ''filename'' = Some ''account_monthly_balance.csv''"
  by (simp_all add: PARAMS_DEFINITION_def)

lemma rshift_chain:
  "rshift GeneratePresignedUrl NotifySlack
     (rshift GeneratePresignedUrl NotifySlack
       (rshift LoadToS3 GeneratePresignedUrl
         (rshift CreateTableSnowflake LoadToS3 []))) =
   [(CreateTableSnowflake, LoadToS3), (LoadToS3, GeneratePresignedUrl),
    (GeneratePresignedUrl, NotifySlack)]"
  by (simp add: rshift_def)

lemma reference_dag:
  "account_monthly_balance_generation (PARAMS_DEFINITION d) =
     Inr \<lparr> template_searchpath = path_join d ''queries'',
       dag_default_args = \<lparr> owner = ''AFMP'', retries = 3 \<rparr>,
       create_table_snowflake =
         \<lparr> sql = ''create_table_snowflake.sql'', conn_id = ''snowflake_conn_id'',
           op_params = PARAMS_DEFINITION d \<rparr>,
       load_to_s3 =
         \<lparr> sql = ''load_to_s3.sql'', conn_id = ''snowflake_conn_id'',
           op_params = PARAMS_DEFINITION d \<rparr>,
       presigned_url_args =
         (''terraform-nu-db-pg-48baa6b7'', ''output_files/account_monthly_balance.csv'', 604800),
       task_retries = (\<lambda>t. None),
       edges = [(CreateTableSnowflake, LoadToS3), (LoadToS3, GeneratePresignedUrl),
                (GeneratePresignedUrl, NotifySlack)] \<rparr>"
  by (simp add: account_monthly_balance_generation_def getitem_def params_lookup rshift_chain)

lemma example_dag_ok:
  "account_monthly_balance_generation (PARAMS_DEFINITION example_dirname) = Inr example_dag"
  by (simp add: reference_dag example_dag_def) (simp add: example_dirname_def path_join_def)

lemma dag_edges:
  "account_monthly_balance_generation P = Inr D \<Longrightarrow>
   edges D = [(CreateTableSnowflake, LoadToS3), (LoadToS3, GeneratePresignedUrl),
              (GeneratePresignedUrl, NotifySlack)]"
  by (auto simp: account_monthly_balance_generation_def rshift_def split: sum.splits)

lemma dag_fields:
  assumes "account_monthly_balance_generation P = Inr D"
  shows "task_retries D = (\<lambda>t. None)"
    and "dag_default_args D = \<lparr> owner = ''AFMP'', retries = 3 \<rparr>"
    and "op_params (create_table_snowflake D) = P"
    and "op_params (load_to_s3 D) = P"
    and "conn_id (create_table_snowflake D) = conn_id (load_to_s3 D)"
    and "P ''snowflake_conn_id'' = Some (conn_id (load_to_s3 D))"
  using assms
  by (auto simp: account_monthly_balance_generation_def getitem_def split: sum.splits option.splits)

lemma upstream_chain:
  assumes "account_monthly_balance_generation P = Inr D"
  shows "upstream D CreateTableSnowflake = []"
    and "upstream D LoadToS3 = [CreateTableSnowflake]"
    and "upstream D GeneratePresignedUrl = [LoadToS3]"
    and "upstream D NotifySlack = [GeneratePresignedUrl]"
  by (simp_all add: upstream_def dag_edges [OF assms])

lemma edge_no_loop:
  "account_monthly_balance_generation P = Inr D \<Longrightarrow> (u, v) \<in> set (edges D) \<Longrightarrow> u \<noteq> v"
  by (auto simp: dag_edges)

lemma edge_single_upstream:
  "account_monthly_balance_generation P = Inr D \<Longrightarrow>
   (u, v) \<in> set (edges D) \<Longrightarrow> (u', v) \<in> set (edges D) \<Longrightarrow> u = u'"
  by (auto simp: dag_edges)

lemma edge_upstream: "(u, v) \<in> set (edges D) \<longleftrightarrow> u \<in> set (upstream D v)"
  by (force simp: upstream_def)

lemma edge_ok_NoStatus [simp]: "edge_ok a NoStatus"
  by (cases a) simp_all

lemma edge_ok_unfinished:
  "edge_ok a b \<Longrightarrow> a = NoStatus \<or> a = UpForRetry \<or> a = Running \<Longrightarrow> b = NoStatus"
  by (cases a) simp_all

lemma edge_ok_active: "edge_ok a b \<Longrightarrow> active b \<Longrightarrow> a = Success"
  by (cases a) (auto simp: active_def)

lemma edge_ok_UpstreamFailed: "a = Failed \<or> a = UpstreamFailed \<Longrightarrow> edge_ok a UpstreamFailed"
  by auto

lemma chain_inv_update:
  assumes D: "account_monthly_balance_generation P = Inr D"
    and inv: "chain_inv D s"
    and old: "st s t = NoStatus \<or> st s t = UpForRetry \<or> st s t = Running"
    and up: "\<And>u. (u, t) \<in> set (edges D) \<Longrightarrow> edge_ok (st s u) new"
    and s': "st s' = (st s)(t := new)"
  shows "chain_inv D s'"
  unfolding chain_inv_def
proof
  fix e assume e: "e \<in> set (edges D)"
  obtain u v where uv: "e = (u, v)" by (cases e)
  from e uv have ne: "u \<noteq> v" using edge_no_loop [OF D] by blast
  from inv e uv have ok: "edge_ok (st s u) (st s v)" by (auto simp: chain_inv_def)
  show "edge_ok (st s' (fst e)) (st s' (snd e))"
  proof (cases "v = t")
    case True
    with ne up e uv show ?thesis by (simp add: s')
  next
    case False
    show ?thesis
    proof (cases "u = t")
      case True
      with ok old have "st s v = NoStatus" using edge_ok_unfinished by blast
      with False uv show ?thesis by (simp add: s')
    next
      case False
      with \<open>v \<noteq> t\<close> ok uv show ?thesis by (simp add: s')
    qed
  qed
qed

lemma execute_st:
  assumes "execute D env t s = Inr s'"
  shows "st s' = st s" and "started s' = started s" and "try_number s' = try_number s"
    and "params_definition s' = params_definition s"
  using assms by (cases t; auto split: sum.splits prod.splits option.splits)+

lemma step_Start:
  assumes "step D (Start t) s = Some s'"
  shows "st s t = NoStatus \<or> st s t = UpForRetry"
    and "\<forall>u \<in> set (upstream D t). st s u = Success"
    and "st s' = (st s)(t := Running)"
    and "started s' = started s @ [t]"
    and "params_definition s' = params_definition s"
    and "slack_log s' = slack_log s"
    and "xcom s' = xcom s"
proof -
  let ?g = "(st s t = NoStatus \<or> st s t = UpForRetry) \<and> (\<forall>u \<in> set (upstream D t). st s u = Success)"
  have g: ?g
  proof (rule ccontr)
    assume "\<not> ?g"
    then have "step D (Start t) s = None" by simp
    with assms show False by simp
  qed
  then show "st s t = NoStatus \<or> st s t = UpForRetry"
    and "\<forall>u \<in> set (upstream D t). st s u = Success" by blast+
  from g have "step D (Start t) s = Some (s\<lparr> st := (st s)(t := Running),
                    try_number := (try_number s)(t := try_number s t + 1),
                    started := started s @ [t] \<rparr>)" by simp
  with assms have s': "s' = s\<lparr> st := (st s)(t := Running),
                    try_number := (try_number s)(t := try_number s t + 1),
                    started := started s @ [t] \<rparr>" by simp
  show "st s' = (st s)(t := Running)" by (simp add: s')
  show "started s' = started s @ [t]" by (simp add: s')
  show "params_definition s' = params_definition s" by (simp add: s')
  show "slack_log s' = slack_log s" by (simp add: s')
  show "xcom s' = xcom s" by (simp add: s')
qed


lemma step_Finish:
  assumes "step D (Finish t env) s = Some s'"
  shows "st s t = Running"
    and "(\<exists>s2. execute D env t s = Inr s2 \<and> s' = s2\<lparr> st := (st s2)(t := Success) \<rparr>) \<or>
         (\<exists>e. execute D env t s = Inl e \<and>
            s' = s\<lparr> st := (st s)(t := if try_number s t \<le> retries_of D t
                                       then UpForRetry else Failed) \<rparr>)"
proof -
  show g: "st s t = Running"
  proof (rule ccontr)
    assume "st s t \<noteq> Running"
    then have "step D (Finish t env) s = None" by simp
    with assms show False by simp
  qed
  show "(\<exists>s2. execute D env t s = Inr s2 \<and> s' = s2\<lparr> st := (st s2)(t := Success) \<rparr>) \<or>
        (\<exists>e. execute D env t s = Inl e \<and>
            s' = s\<lparr> st := (st s)(t := if try_number s t \<le> retries_of D t
                                       then UpForRetry else Failed) \<rparr>)"
  proof (cases "execute D env t s")
    case (Inl e)
    with assms g show ?thesis by simp
  next
    case (Inr s2)
    with assms g show ?thesis by simp
  qed
qed

lemma step_Finish_st:
  assumes "step D (Finish t env) s = Some s'"
  shows "st s' = (st s)(t := st s' t)"
    and "st s' t = Success \<or> st s' t = UpForRetry \<or> st s' t = Failed"
    and "started s' = started s"
    and "params_definition s' = params_definition s"
proof -
  from step_Finish(2) [OF assms]
  consider s2 where "execute D env t s = Inr s2" "s' = s2\<lparr> st := (st s2)(t := Success) \<rparr>"
    | e where "execute D env t s = Inl e"
        "s' = s\<lparr> st := (st s)(t := if try_number s t \<le> retries_of D t
                                       then UpForRetry else Failed) \<rparr>"
    by blast
  then have "st s' = (st s)(t := st s' t) \<and>
     (st s' t = Success \<or> st s' t = UpForRetry \<or> st s' t = Failed) \<and>
     started s' = started s \<and> params_definition s' = params_definition s"
  proof cases
    case 1
    from execute_st [OF 1(1)] 1(2) show ?thesis by simp
  next
    case 2
    then show ?thesis by simp
  qed
  then show "st s' = (st s)(t := st s' t)"
    and "st s' t = Success \<or> st s' t = UpForRetry \<or> st s' t = Failed"
    and "started s' = started s"
    and "params_definition s' = params_definition s" by blast+
qed

lemma step_Mark:
  assumes "step D (MarkUpstreamFailed t) s = Some s'"
  shows "st s t = NoStatus"
    and "\<exists>u \<in> set (upstream D t). st s u = Failed \<or> st s u = UpstreamFailed"
    and "st s' = (st s)(t := UpstreamFailed)"
    and "started s' = started s"
    and "params_definition s' = params_definition s"
    and "slack_log s' = slack_log s"
    and "xcom s' = xcom s"
proof -
  let ?g = "st s t = NoStatus \<and> (\<exists>u \<in> set (upstream D t). st s u = Failed \<or> st s u = UpstreamFailed)"
  have g: ?g
  proof (rule ccontr)
    assume "\<not> ?g"
    then have "step D (MarkUpstreamFailed t) s = None" by simp
    with assms show False by simp
  qed
  then show "st s t = NoStatus"
    and "\<exists>u \<in> set (upstream D t). st s u = Failed \<or> st s u = UpstreamFailed" by blast+
  from g have "step D (MarkUpstreamFailed t) s = Some (s\<lparr> st := (st s)(t := UpstreamFailed) \<rparr>)"
    by simp
  with assms have s': "s' = s\<lparr> st := (st s)(t := UpstreamFailed) \<rparr>" by simp
  show "st s' = (st s)(t := UpstreamFailed)" by (simp add: s')
  show "started s' = started s" by (simp add: s')
  show "params_definition s' = params_definition s" by (simp add: s')
  show "slack_log s' = slack_log s" by (simp add: s')
  show "xcom s' = xcom s" by (simp add: s')
qed

lemma chain_inv_step:
  assumes D: "account_monthly_balance_generation P = Inr D"
    and inv: "chain_inv D s" and stp: "step D e s = Some s'"
  shows "chain_inv D s'"
proof (cases e)
  case (Start t)
  with stp have stp': "step D (Start t) s = Some s'" by simp
  note h = step_Start [OF stp']
  show ?thesis
  proof (rule chain_inv_update [OF D inv _ _ h(3)])
    show "st s t = NoStatus \<or> st s t = UpForRetry \<or> st s t = Running" using h(1) by blast
    fix u assume "(u, t) \<in> set (edges D)"
    with h(2) have "st s u = Success" by (simp add: edge_upstream)
    then show "edge_ok (st s u) Running" by simp
  qed
next
  case (Finish t env)
  with stp have stp': "step D (Finish t env) s = Some s'" by simp
  note x = step_Finish_st(1) [OF stp']
  note r = step_Finish(1) [OF stp']
  show ?thesis
  proof (rule chain_inv_update [OF D inv _ _ x])
    show "st s t = NoStatus \<or> st s t = UpForRetry \<or> st s t = Running" using r by blast
    fix u assume "(u, t) \<in> set (edges D)"
    with inv have "edge_ok (st s u) (st s t)" by (auto simp: chain_inv_def)
    with r have "st s u = Success" by (simp add: edge_ok_active active_def)
    then show "edge_ok (st s u) (st s' t)" by simp
  qed
next
  case (MarkUpstreamFailed t)
  with stp have stp': "step D (MarkUpstreamFailed t) s = Some s'" by simp
  note h = step_Mark [OF stp']
  from h(2) obtain u' where u': "u' \<in> set (upstream D t)"
    "st s u' = Failed \<or> st s u' = UpstreamFailed" by blast
  show ?thesis
  proof (rule chain_inv_update [OF D inv _ _ h(3)])
    show "st s t = NoStatus \<or> st s t = UpForRetry \<or> st s t = Running" using h(1) by blast
    fix u assume "(u, t) \<in> set (edges D)"
    with u'(1) have "u = u'" using edge_single_upstream [OF D] by (simp add: edge_upstream)
    with u'(2) show "edge_ok (st s u) UpstreamFailed" by (simp add: edge_ok_UpstreamFailed)
  qed
qed

section \<open>Invariants of every run\<close>

lemma run_append:
  "run D (es @ es') s = (case run D es s of None \<Rightarrow> None | Some s1 \<Rightarrow> run D es' s1)"
  by (induction es arbitrary: s) (simp_all split: option.splits)

lemma run_invariant:
  assumes stp: "\<And>e s s'. I s \<Longrightarrow> step D e s = Some s' \<Longrightarrow> I s'"
    and "I s0" and "run D es s0 = Some s"
  shows "I s"
  using assms(2,3)
proof (induction es arbitrary: s0)
  case Nil
  then show ?case by simp
next
  case (Cons e es)
  from Cons.prems(2) obtain s1 where s1: "step D e s0 = Some s1" "run D es s1 = Some s"
    by (cases "step D e s0") simp_all
  from stp [OF Cons.prems(1) s1(1)] have "I s1" .
  from Cons.IH [OF this s1(2)] show ?case .
qed

lemma chain3:
  assumes D: "account_monthly_balance_generation P = Inr D" and inv: "chain_inv D s"
  shows "edge_ok (st s CreateTableSnowflake) (st s LoadToS3)"
    and "edge_ok (st s LoadToS3) (st s GeneratePresignedUrl)"
    and "edge_ok (st s GeneratePresignedUrl) (st s NotifySlack)"
  using inv by (simp_all add: chain_inv_def dag_edges [OF D])

lemma edge_ok_unfinished_NoStatus:
  "edge_ok a b \<Longrightarrow> unfinished a \<Longrightarrow> b = NoStatus"
  by (cases a) (simp_all add: unfinished_def)

lemma unfinished_NoStatus [simp]: "unfinished NoStatus"
  by (simp add: unfinished_def)

lemma active_Success [simp]: "active Success"
  by (simp add: active_def)

lemma not_active_NoStatus [simp]: "\<not> active NoStatus"
  by (simp add: active_def)

text \<open>Below an unfinished task nothing has been touched.\<close>

lemma downstream_NoStatus:
  assumes D: "account_monthly_balance_generation P = Inr D" and inv: "chain_inv D s"
    and u: "unfinished (st s t)" and v: "v \<in> set (later_tasks t)"
  shows "st s v = NoStatus"
proof -
  note c = chain3 [OF D inv]
  have n: "unfinished (st s GeneratePresignedUrl) \<Longrightarrow> st s NotifySlack = NoStatus"
    using c(3) by (rule edge_ok_unfinished_NoStatus)
  have g: "unfinished (st s LoadToS3) \<Longrightarrow> st s GeneratePresignedUrl = NoStatus"
    using c(2) by (rule edge_ok_unfinished_NoStatus)
  have l: "unfinished (st s CreateTableSnowflake) \<Longrightarrow> st s LoadToS3 = NoStatus"
    using c(1) by (rule edge_ok_unfinished_NoStatus)
  show ?thesis
  proof (cases t)
    case CreateTableSnowflake
    with u have 1: "st s LoadToS3 = NoStatus" using l by simp
    with g have 2: "st s GeneratePresignedUrl = NoStatus" by simp
    with n have 3: "st s NotifySlack = NoStatus" by simp
    from v CreateTableSnowflake 1 2 3 show ?thesis
      by (auto simp: later_tasks_def all_tasks_def)
  next
    case LoadToS3
    with u have 2: "st s GeneratePresignedUrl = NoStatus" using g by simp
    with n have 3: "st s NotifySlack = NoStatus" by simp
    from v LoadToS3 2 3 show ?thesis
      by (auto simp: later_tasks_def all_tasks_def)
  next
    case GeneratePresignedUrl
    with u have 3: "st s NotifySlack = NoStatus" using n by simp
    from v GeneratePresignedUrl 3 show ?thesis
      by (auto simp: later_tasks_def all_tasks_def)
  next
    case NotifySlack
    with v show ?thesis by (simp add: later_tasks_def all_tasks_def)
  qed
qed

text \<open>Above an active task everything has succeeded.\<close>

lemma upstream_Success:
  assumes D: "account_monthly_balance_generation P = Inr D" and inv: "chain_inv D s"
    and a: "active (st s t)" and u: "u \<in> set (earlier_tasks t)"
  shows "st s u = Success"
proof -
  note c = chain3 [OF D inv]
  have l: "active (st s LoadToS3) \<Longrightarrow> st s CreateTableSnowflake = Success"
    using c(1) by (rule edge_ok_active)
  have g: "active (st s GeneratePresignedUrl) \<Longrightarrow> st s LoadToS3 = Success"
    using c(2) by (rule edge_ok_active)
  have n: "active (st s NotifySlack) \<Longrightarrow> st s GeneratePresignedUrl = Success"
    using c(3) by (rule edge_ok_active)
  show ?thesis
  proof (cases t)
    case CreateTableSnowflake
    with u show ?thesis by (simp add: earlier_tasks_def all_tasks_def)
  next
    case LoadToS3
    with a have 1: "st s CreateTableSnowflake = Success" using l by simp
    from u LoadToS3 1 show ?thesis by (auto simp: earlier_tasks_def all_tasks_def)
  next
    case GeneratePresignedUrl
    with a have 2: "st s LoadToS3 = Success" using g by simp
    with l have 1: "st s CreateTableSnowflake = Success" by simp
    from u GeneratePresignedUrl 1 2 show ?thesis by (auto simp: earlier_tasks_def all_tasks_def)
  next
    case NotifySlack
    with a have 3: "st s GeneratePresignedUrl = Success" using n by simp
    with g have 2: "st s LoadToS3 = Success" by simp
    with l have 1: "st s CreateTableSnowflake = Success" by simp
    from u NotifySlack 1 2 3 show ?thesis by (auto simp: earlier_tasks_def all_tasks_def)
  qed
qed

lemma remdups_adj_snoc:
  "remdups_adj (xs @ [x]) =
     (if xs \<noteq> [] \<and> last xs = x then remdups_adj xs else remdups_adj xs @ [x])"
proof (cases xs rule: rev_cases)
  case Nil
  then show ?thesis by simp
next
  case (snoc ys y)
  then show ?thesis by (simp add: remdups_adj_append_two)
qed

lemma all_tasks_split: "all_tasks = earlier_tasks t @ t # later_tasks t"
  by (cases t) (simp_all add: all_tasks_def earlier_tasks_def later_tasks_def)

lemma not_in_earlier: "t \<notin> set (earlier_tasks t)"
  by (cases t) (simp_all add: all_tasks_def earlier_tasks_def)

lemma not_in_later: "t \<notin> set (later_tasks t)"
  by (cases t) (simp_all add: all_tasks_def later_tasks_def)

lemma filter_earlier:
  assumes D: "account_monthly_balance_generation P = Inr D" and inv: "chain_inv D s"
    and a: "active (st s t)"
  shows "filter (\<lambda>u. active (st s u)) (earlier_tasks t) = earlier_tasks t"
  using upstream_Success [OF D inv a] by (simp add: filter_id_conv)

lemma filter_later:
  assumes D: "account_monthly_balance_generation P = Inr D" and inv: "chain_inv D s"
    and u: "unfinished (st s t)"
  shows "filter (\<lambda>u. active (st s u)) (later_tasks t) = []"
  using downstream_NoStatus [OF D inv u] by (simp add: filter_empty_conv)

lemma filter_other:
  assumes "st s' = (st s)(t := x)" and "t \<notin> set xs"
  shows "filter (\<lambda>u. active (st s u)) xs = filter (\<lambda>u. active (st s' u)) xs"
proof (rule filter_cong)
  fix u assume "u \<in> set xs"
  with assms(2) have "u \<noteq> t" by auto
  then show "active (st s u) = active (st s' u)" by (simp add: assms(1))
qed simp

lemma log_inv_same:
  assumes "log_inv s" and "started s' = started s" and "st s' = (st s)(t := x)"
    and "active x = active (st s t)"
  shows "log_inv s'"
proof -
  have "\<And>u. active (st s' u) = active (st s u)" using assms(3,4) by simp
  with assms(1,2) show ?thesis by (simp add: log_inv_def)
qed

lemma log_inv_Start:
  assumes D: "account_monthly_balance_generation P = Inr D"
    and inv: "chain_inv D s" and inv': "chain_inv D s'" and log: "log_inv s"
    and old: "st s t = NoStatus \<or> st s t = UpForRetry"
    and st': "st s' = (st s)(t := Running)" and started': "started s' = started s @ [t]"
  shows "log_inv s'"
proof -
  have r: "st s' t = Running" by (simp add: st')
  then have a': "active (st s' t)" and u': "unfinished (st s' t)"
    by (simp_all add: active_def unfinished_def)
  have F': "filter (\<lambda>u. active (st s' u)) all_tasks = earlier_tasks t @ [t]"
    using filter_earlier [OF D inv' a'] filter_later [OF D inv' u'] a'
    by (simp add: all_tasks_split [of t])
  have e: "filter (\<lambda>u. active (st s u)) (earlier_tasks t) = earlier_tasks t"
    using filter_earlier [OF D inv' a'] by (simp only: filter_other [OF st' not_in_earlier])
  have l: "filter (\<lambda>u. active (st s u)) (later_tasks t) = []"
    using filter_later [OF D inv' u'] by (simp only: filter_other [OF st' not_in_later])
  from old show ?thesis
  proof
    assume n: "st s t = NoStatus"
    have F: "remdups_adj (started s) = earlier_tasks t"
      using log e l n by (simp add: log_inv_def all_tasks_split [of t])
    have "started s = [] \<or> last (started s) \<noteq> t"
    proof (cases "started s = []")
      case True
      then show ?thesis by simp
    next
      case False
      then have "last (started s) \<in> set (started s)" by simp
      also have "set (started s) = set (remdups_adj (started s))" by simp
      finally have "last (started s) \<in> set (earlier_tasks t)" by (simp only: F)
      with not_in_earlier [of t] show ?thesis by auto
    qed
    then have "remdups_adj (started s @ [t]) = earlier_tasks t @ [t]"
      using F by (auto simp: remdups_adj_snoc)
    with F' show ?thesis by (simp add: log_inv_def started')
  next
    assume n: "st s t = UpForRetry"
    have F: "remdups_adj (started s) = earlier_tasks t @ [t]"
      using log e l n by (simp add: log_inv_def all_tasks_split [of t] active_def)
    then have ne: "started s \<noteq> []" by auto
    have "last (started s) = last (remdups_adj (started s))" by simp
    also have "\<dots> = t" by (simp only: F) simp
    finally have "remdups_adj (started s @ [t]) = earlier_tasks t @ [t]"
      using F ne by (simp add: remdups_adj_snoc)
    with F' show ?thesis by (simp add: log_inv_def started')
  qed
qed

lemma log_inv_step:
  assumes D: "account_monthly_balance_generation P = Inr D"
    and inv: "chain_inv D s" and log: "log_inv s" and stp: "step D e s = Some s'"
  shows "log_inv s'"
proof (cases e)
  case (Start t)
  with stp have stp': "step D (Start t) s = Some s'" by simp
  note h = step_Start [OF stp']
  from chain_inv_step [OF D inv stp] have inv': "chain_inv D s'" .
  from log_inv_Start [OF D inv inv' log h(1) h(3) h(4)] show ?thesis .
next
  case (Finish t env)
  with stp have stp': "step D (Finish t env) s = Some s'" by simp
  note r = step_Finish(1) [OF stp'] and h = step_Finish_st [OF stp']
  from h(2) r have "active (st s' t) = active (st s t)" by (auto simp: active_def)
  from log_inv_same [OF log h(3) h(1) this] show ?thesis .
next
  case (MarkUpstreamFailed t)
  with stp have stp': "step D (MarkUpstreamFailed t) s = Some s'" by simp
  note h = step_Mark [OF stp']
  from h(1) have "active UpstreamFailed = active (st s t)" by (simp add: active_def)
  from log_inv_same [OF log h(4) h(3) this] show ?thesis .
qed

lemma execute_effects:
  assumes "execute D env t s = Inr s2"
  shows "t \<noteq> NotifySlack \<Longrightarrow> slack_log s2 = slack_log s"
    and "t \<noteq> GeneratePresignedUrl \<Longrightarrow> xcom s2 = xcom s"
    and "t = NotifySlack \<Longrightarrow>
           \<exists>url. xcom s = Some url \<and> slack_log s2 = slack_log s @ [send_slack_message url]"
  using assms
  by (cases t; auto simp: notify_slack_def Let_def split: sum.splits prod.splits option.splits if_splits)+

lemma slack_inv_other:
  assumes "slack_inv log0 s" and "st s' NotifySlack = st s NotifySlack"
    and "xcom s' = xcom s" and "slack_log s' = slack_log s"
  shows "slack_inv log0 s'"
  using assms by (simp add: slack_inv_def)

lemma slack_inv_not_Success:
  assumes "slack_inv log0 s" and "st s NotifySlack \<noteq> Success" and "st s' NotifySlack \<noteq> Success"
    and "slack_log s' = slack_log s"
  shows "slack_inv log0 s'"
  using assms by (simp add: slack_inv_def)

lemma step_Finish_effects:
  assumes "step D (Finish t env) s = Some s'"
  shows "st s' t \<noteq> Success \<Longrightarrow> slack_log s' = slack_log s"
    and "st s' t \<noteq> Success \<Longrightarrow> xcom s' = xcom s"
    and "t \<noteq> NotifySlack \<Longrightarrow> slack_log s' = slack_log s"
    and "t \<noteq> GeneratePresignedUrl \<Longrightarrow> xcom s' = xcom s"
    and "t = NotifySlack \<Longrightarrow> st s' t = Success \<Longrightarrow>
           \<exists>url. xcom s = Some url \<and> slack_log s' = slack_log s @ [send_slack_message url]"
proof -
  from step_Finish(2) [OF assms]
  consider s2 where "execute D env t s = Inr s2" "s' = s2\<lparr> st := (st s2)(t := Success) \<rparr>"
    | e where "execute D env t s = Inl e"
        "s' = s\<lparr> st := (st s)(t := if try_number s t \<le> retries_of D t
                                       then UpForRetry else Failed) \<rparr>"
    by blast
  then have "(st s' t \<noteq> Success \<longrightarrow> slack_log s' = slack_log s \<and> xcom s' = xcom s) \<and>
    (t \<noteq> NotifySlack \<longrightarrow> slack_log s' = slack_log s) \<and>
    (t \<noteq> GeneratePresignedUrl \<longrightarrow> xcom s' = xcom s) \<and>
    (t = NotifySlack \<longrightarrow> st s' t = Success \<longrightarrow>
           (\<exists>url. xcom s = Some url \<and> slack_log s' = slack_log s @ [send_slack_message url]))"
  proof cases
    case 1
    note ef = execute_effects [OF 1(1)]
    have a: "st s' t = Success" by (simp add: 1(2))
    have b: "slack_log s' = slack_log s2" "xcom s' = xcom s2" by (simp_all add: 1(2))
    from a b ef show ?thesis by simp
  next
    case 2
    have a: "st s' t \<noteq> Success" by (simp add: 2(2))
    have b: "slack_log s' = slack_log s" "xcom s' = xcom s" by (simp_all add: 2(2))
    from a b show ?thesis by auto
  qed
  then show "st s' t \<noteq> Success \<Longrightarrow> slack_log s' = slack_log s"
    and "st s' t \<noteq> Success \<Longrightarrow> xcom s' = xcom s"
    and "t \<noteq> NotifySlack \<Longrightarrow> slack_log s' = slack_log s"
    and "t \<noteq> GeneratePresignedUrl \<Longrightarrow> xcom s' = xcom s"
    and "t = NotifySlack \<Longrightarrow> st s' t = Success \<Longrightarrow>
           \<exists>url. xcom s = Some url \<and> slack_log s' = slack_log s @ [send_slack_message url]"
    by blast+
qed

lemma slack_inv_step:
  assumes D: "account_monthly_balance_generation P = Inr D"
    and inv: "chain_inv D s" and sl: "slack_inv log0 s" and stp: "step D e s = Some s'"
  shows "slack_inv log0 s'"
proof (cases e)
  case (Start t)
  with stp have stp': "step D (Start t) s = Some s'" by simp
  note h = step_Start [OF stp']
  show ?thesis
  proof (cases "t = NotifySlack")
    case True
    from h(1) True have 1: "st s NotifySlack \<noteq> Success" by auto
    from h(3) True have 2: "st s' NotifySlack \<noteq> Success" by simp
    from slack_inv_not_Success [OF sl 1 2 h(6)] show ?thesis .
  next
    case False
    with h(3) have "st s' NotifySlack = st s NotifySlack" by simp
    from slack_inv_other [OF sl this h(7) h(6)] show ?thesis .
  qed
next
  case (MarkUpstreamFailed t)
  with stp have stp': "step D (MarkUpstreamFailed t) s = Some s'" by simp
  note h = step_Mark [OF stp']
  show ?thesis
  proof (cases "t = NotifySlack")
    case True
    from h(1) True have 1: "st s NotifySlack \<noteq> Success" by simp
    from h(3) True have 2: "st s' NotifySlack \<noteq> Success" by simp
    from slack_inv_not_Success [OF sl 1 2 h(6)] show ?thesis .
  next
    case False
    with h(3) have "st s' NotifySlack = st s NotifySlack" by simp
    from slack_inv_other [OF sl this h(7) h(6)] show ?thesis .
  qed
next
  case (Finish t env)
  with stp have stp': "step D (Finish t env) s = Some s'" by simp
  note r = step_Finish(1) [OF stp'] and h = step_Finish_st [OF stp']
    and ef = step_Finish_effects [OF stp']
  show ?thesis
  proof (cases "t = NotifySlack")
    case True
    from r True have old: "st s NotifySlack \<noteq> Success" by simp
    with sl have log0: "slack_log s = log0" by (simp add: slack_inv_def)
    show ?thesis
    proof (cases "st s' t = Success")
      case False
      with True have 2: "st s' NotifySlack \<noteq> Success" by simp
      from slack_inv_not_Success [OF sl old 2 ef(1) [OF False]] show ?thesis .
    next
      case suc: True
      from ef(5) [OF True suc] obtain url where
        url: "xcom s = Some url" "slack_log s' = slack_log s @ [send_slack_message url]" by blast
      from True have "xcom s' = xcom s" by (simp add: ef(4))
      with url log0 suc True show ?thesis by (simp add: slack_inv_def)
    qed
  next
    case False
    from h(1) False have same: "st s' NotifySlack = st s NotifySlack"
      by (metis fun_upd_other)
    note log = ef(3) [OF False]
    show ?thesis
    proof (cases "t = GeneratePresignedUrl")
      case True
      with r have "unfinished (st s GeneratePresignedUrl)" by (simp add: unfinished_def)
      with chain3(3) [OF D inv] have "st s NotifySlack = NoStatus"
        by (rule edge_ok_unfinished_NoStatus)
      with same have "st s NotifySlack \<noteq> Success" "st s' NotifySlack \<noteq> Success" by simp_all
      from slack_inv_not_Success [OF sl this log] show ?thesis .
    next
      case False
      from slack_inv_other [OF sl same ef(4) [OF False] log] show ?thesis .
    qed
  qed
qed

lemma params_step:
  assumes "step D e s = Some s'"
  shows "params_definition s' = params_definition s"
proof (cases e)
  case (Start t)
  with assms show ?thesis using step_Start(5) by blast
next
  case (Finish t env)
  with assms show ?thesis using step_Finish_st(4) by blast
next
  case (MarkUpstreamFailed t)
  with assms show ?thesis using step_Mark(5) by blast
qed

text \<open>Every step changes the state of one task, which was not finished.\<close>

lemma step_changes_unfinished:
  assumes "step D e s = Some s'"
  shows "\<exists>t. unfinished (st s t) \<and> st s' = (st s)(t := st s' t)"
proof (cases e)
  case (Start t)
  with assms have stp': "step D (Start t) s = Some s'" by simp
  note h = step_Start [OF stp']
  from h(1) have "unfinished (st s t)" by (auto simp: unfinished_def)
  moreover from h(3) have "st s' = (st s)(t := st s' t)" by simp
  ultimately show ?thesis by blast
next
  case (Finish t env)
  with assms have stp': "step D (Finish t env) s = Some s'" by simp
  from step_Finish(1) [OF stp'] have "unfinished (st s t)" by (simp add: unfinished_def)
  with step_Finish_st(1) [OF stp'] show ?thesis by blast
next
  case (MarkUpstreamFailed t)
  with assms have stp': "step D (MarkUpstreamFailed t) s = Some s'" by simp
  note h = step_Mark [OF stp']
  from h(1) have "unfinished (st s t)" by (simp add: unfinished_def)
  moreover from h(3) have "st s' = (st s)(t := st s' t)" by simp
  ultimately show ?thesis by blast
qed

lemma finished_stable_step:
  assumes "step D e s = Some s'" and "finished (st s u)"
  shows "st s' u = st s u"
proof -
  from step_changes_unfinished [OF assms(1)] obtain t where
    t: "unfinished (st s t)" "st s' = (st s)(t := st s' t)" by blast
  from t(1) assms(2) have "t \<noteq> u" by (auto simp: unfinished_def finished_def)
  with t(2) show ?thesis by (metis fun_upd_other)
qed

lemma finished_stable:
  assumes "run D es s = Some s'" and "finished (st s u)"
  shows "st s' u = st s u"
proof -
  have "st s' u = st s u \<and> finished (st s' u)"
  proof (rule run_invariant [where I = "\<lambda>r. st r u = st s u \<and> finished (st r u)", OF _ _ assms(1)])
    show "st s u = st s u \<and> finished (st s u)" using assms(2) by simp
  next
    fix e r r' assume "st r u = st s u \<and> finished (st r u)" "step D e r = Some r'"
    then show "st r' u = st s u \<and> finished (st r' u)"
      using finished_stable_step by metis
  qed
  then show ?thesis by simp
qed

lemma init_inv:
  "chain_inv D (init P log)" "log_inv (init P log)" "slack_inv log (init P log)"
  "params_definition (init P log) = P"
  by (simp_all add: chain_inv_def log_inv_def slack_inv_def init_def all_tasks_def)

lemma reachable_inv:
  assumes D: "account_monthly_balance_generation P = Inr D"
    and run: "run D es (init P log) = Some s"
  shows "chain_inv D s" and "log_inv s" and "slack_inv log s" and "params_definition s = P"
proof -
  let ?I = "\<lambda>r. chain_inv D r \<and> log_inv r \<and> slack_inv log r \<and> params_definition r = P"
  have "?I s"
  proof (rule run_invariant [where I = ?I, OF _ _ run])
    show "?I (init P log)" using init_inv by blast
  next
    fix e r r' assume I: "?I r" and stp: "step D e r = Some r'"
    from I chain_inv_step [OF D _ stp] log_inv_step [OF D _ _ stp] slack_inv_step [OF D _ _ stp]
      params_step [OF stp]
    show "?I r'" by simp
  qed
  then show "chain_inv D s" and "log_inv s" and "slack_inv log s" and "params_definition s = P"
    by blast+
qed

lemma in_all_tasks: "u \<in> set (earlier_tasks t) \<or> u = t \<or> u \<in> set (later_tasks t)"
proof -
  have "u \<in> set all_tasks" by (cases u) (simp_all add: all_tasks_def)
  then show ?thesis by (simp add: all_tasks_split [of t]) blast
qed

lemma one_running:
  assumes D: "account_monthly_balance_generation P = Inr D" and inv: "chain_inv D s"
    and t: "st s t = Running" and u: "st s u = Running"
  shows "t = u"
proof (rule ccontr)
  assume ne: "t \<noteq> u"
  from t have a: "active (st s t)" and f: "unfinished (st s t)"
    by (simp_all add: active_def unfinished_def)
  from in_all_tasks [of u t] ne consider "u \<in> set (earlier_tasks t)" | "u \<in> set (later_tasks t)"
    by blast
  then show False
  proof cases
    case 1
    from upstream_Success [OF D inv a 1] u show False by simp
  next
    case 2
    from downstream_NoStatus [OF D inv f 2] u show False by simp
  qed
qed

lemma running_count:
  assumes D: "account_monthly_balance_generation P = Inr D" and inv: "chain_inv D s"
  shows "length (filter (\<lambda>t. st s t = Running) all_tasks) \<le> 1"
proof (cases "\<exists>t. st s t = Running")
  case False
  then have "filter (\<lambda>t. st s t = Running) all_tasks = []" by (simp add: filter_empty_conv)
  then show ?thesis by simp
next
  case True
  then obtain t where t: "st s t = Running" by blast
  have e: "filter (\<lambda>u. st s u = Running) (earlier_tasks t) = []"
    using one_running [OF D inv t] not_in_earlier [of t] by (auto simp: filter_empty_conv)
  have l: "filter (\<lambda>u. st s u = Running) (later_tasks t) = []"
    using one_running [OF D inv t] not_in_later [of t] by (auto simp: filter_empty_conv)
  from e l t show ?thesis by (simp add: all_tasks_split [of t])
qed

lemma active_prefix:
  assumes D: "account_monthly_balance_generation P = Inr D" and inv: "chain_inv D s"
  shows "prefix (filter (\<lambda>t. active (st s t)) all_tasks) all_tasks"
proof -
  note c = chain3 [OF D inv]
  have l: "active (st s LoadToS3) \<Longrightarrow> active (st s CreateTableSnowflake)"
    using edge_ok_active [OF c(1)] by simp
  have g: "active (st s GeneratePresignedUrl) \<Longrightarrow> active (st s LoadToS3)"
    using edge_ok_active [OF c(2)] by simp
  have n: "active (st s NotifySlack) \<Longrightarrow> active (st s GeneratePresignedUrl)"
    using edge_ok_active [OF c(3)] by simp
  from l g n show ?thesis by (auto simp: all_tasks_def)
qed

lemma run_Start_split:
  assumes "run D (es1 @ Start t # es2) s0 = Some s"
  shows "\<exists>s1 s2. run D es1 s0 = Some s1 \<and> step D (Start t) s1 = Some s2 \<and>
           run D (es1 @ [Start t]) s0 = Some s2"
proof -
  from assms obtain s1 where s1: "run D es1 s0 = Some s1" "run D (Start t # es2) s1 = Some s"
    by (auto simp: run_append split: option.splits)
  from s1(2) obtain s2 where s2: "step D (Start t) s1 = Some s2"
    by (cases "step D (Start t) s1") simp_all
  with s1(1) have "run D (es1 @ [Start t]) s0 = Some s2" by (simp add: run_append)
  with s1(1) s2 show ?thesis by blast
qed

lemma start_after_success:
  assumes D: "account_monthly_balance_generation P = Inr D"
    and run: "run D (es1 @ Start t # es2) (init P log) = Some s"
  shows "\<exists>s1. run D es1 (init P log) = Some s1 \<and>
           (\<forall>u \<in> set (earlier_tasks t). st s1 u = Success) \<and> (\<forall>u. st s1 u \<noteq> Running)"
proof -
  from run_Start_split [OF run] obtain s1 s2 where
    s: "run D es1 (init P log) = Some s1" "step D (Start t) s1 = Some s2"
       "run D (es1 @ [Start t]) (init P log) = Some s2" by blast
  note h = step_Start [OF s(2)]
  note inv2 = reachable_inv(1) [OF D s(3)]
  from h(3) have r: "st s2 t = Running" by simp
  then have a: "active (st s2 t)" by (simp add: active_def)
  have e: "\<forall>u \<in> set (earlier_tasks t). st s1 u = Success"
  proof
    fix u assume u: "u \<in> set (earlier_tasks t)"
    with not_in_earlier [of t] have "u \<noteq> t" by auto
    with upstream_Success [OF D inv2 a u] h(3) show "st s1 u = Success" by simp
  qed
  have n: "\<forall>u. st s1 u \<noteq> Running"
  proof (intro allI notI)
    fix u assume u: "st s1 u = Running"
    with h(1) have "u \<noteq> t" by auto
    with u h(3) have "st s2 u = Running" by simp
    from one_running [OF D inv2 r this] \<open>u \<noteq> t\<close> show False by simp
  qed
  from s(1) e n show ?thesis by blast
qed

lemma example_upstream:
  "upstream example_dag CreateTableSnowflake = []"
  "upstream example_dag LoadToS3 = [CreateTableSnowflake]"
  "upstream example_dag GeneratePresignedUrl = [LoadToS3]"
  "upstream example_dag NotifySlack = [GeneratePresignedUrl]"
  by (rule upstream_chain [OF example_dag_ok])+

lemma example_execute:
  "execute example_dag example_env CreateTableSnowflake s = Inr s"
  "execute example_dag example_env LoadToS3 s = Inr s"
  "params_definition s = PARAMS_DEFINITION example_dirname \<Longrightarrow>
   execute example_dag example_env GeneratePresignedUrl s =
     Inr (s\<lparr>xcom := Some example_url\<rparr>)"
  "xcom s = Some url \<Longrightarrow>
   execute example_dag example_env NotifySlack s =
     Inr (s\<lparr>slack_log := slack_log s @ [send_slack_message url]\<rparr>)"
  by (simp_all add: example_dag_def example_env_def execute_sql_def generate_presigned_url_def
      getitem_def params_lookup notify_slack_def example_url_def)

lemma example_success_run:
  "\<exists>s. run example_dag success_events (init (PARAMS_DEFINITION example_dirname) []) = Some s \<and>
     started s = [CreateTableSnowflake, LoadToS3, GeneratePresignedUrl, NotifySlack] \<and>
     map (st s) all_tasks = [Success, Success, Success, Success] \<and>
     slack_log s = [send_slack_message example_url]"
  by (simp add: success_events_def init_def example_upstream example_execute all_tasks_def
      del: execute.simps)

lemma edge_ok_inactive: "edge_ok a b \<Longrightarrow> a \<noteq> Success \<Longrightarrow> \<not> active b"
  by (cases a) (auto simp: active_def)

lemma inactive_cases: "\<not> active x \<Longrightarrow> x = NoStatus \<or> x = UpstreamFailed"
  by (cases x) (simp_all add: active_def)

lemma downstream_inactive:
  assumes D: "account_monthly_balance_generation P = Inr D" and inv: "chain_inv D s"
    and t: "st s t \<noteq> Success" and v: "v \<in> set (later_tasks t)"
  shows "\<not> active (st s v)"
proof -
  note c = chain3 [OF D inv]
  have l: "st s CreateTableSnowflake \<noteq> Success \<Longrightarrow> \<not> active (st s LoadToS3)"
    using c(1) by (rule edge_ok_inactive)
  have g: "st s LoadToS3 \<noteq> Success \<Longrightarrow> \<not> active (st s GeneratePresignedUrl)"
    using c(2) by (rule edge_ok_inactive)
  have n: "st s GeneratePresignedUrl \<noteq> Success \<Longrightarrow> \<not> active (st s NotifySlack)"
    using c(3) by (rule edge_ok_inactive)
  have s: "\<And>x. \<not> active x \<Longrightarrow> x \<noteq> Success" by auto
  show ?thesis
  proof (cases t)
    case CreateTableSnowflake
    with t have 1: "\<not> active (st s LoadToS3)" using l by simp
    with g s have 2: "\<not> active (st s GeneratePresignedUrl)" by blast
    with n s have 3: "\<not> active (st s NotifySlack)" by blast
    from v CreateTableSnowflake 1 2 3 show ?thesis
      by (auto simp: later_tasks_def all_tasks_def)
  next
    case LoadToS3
    with t have 2: "\<not> active (st s GeneratePresignedUrl)" using g by simp
    with n s have 3: "\<not> active (st s NotifySlack)" by blast
    from v LoadToS3 2 3 show ?thesis
      by (auto simp: later_tasks_def all_tasks_def)
  next
    case GeneratePresignedUrl
    with t have 3: "\<not> active (st s NotifySlack)" using n by simp
    from v GeneratePresignedUrl 3 show ?thesis
      by (auto simp: later_tasks_def all_tasks_def)
  next
    case NotifySlack
    with v show ?thesis by (simp add: later_tasks_def all_tasks_def)
  qed
qed

lemma started_set: "log_inv s \<Longrightarrow> set (started s) = {t. active (st s t)}"
proof -
  assume l: "log_inv s"
  have "set (started s) = set (remdups_adj (started s))" by simp
  also have "\<dots> = set (filter (\<lambda>t. active (st s t)) all_tasks)" using l by (simp only: log_inv_def)
  also have "\<dots> = {t. active (st s t)}"
  proof -
    have "\<And>t. t \<in> set all_tasks" by (simp add: all_tasks_def, case_tac t) simp_all
    then show ?thesis by auto
  qed
  finally show ?thesis .
qed

lemma dag_leaves:
  "account_monthly_balance_generation P = Inr D \<Longrightarrow> leaves D = [NotifySlack]"
  by (simp add: leaves_def dag_edges all_tasks_def)

lemma run_state_of_cases:
  assumes D: "account_monthly_balance_generation P = Inr D"
  shows "run_state_of D s =
     (if \<not> (finished (st s CreateTableSnowflake) \<and> finished (st s LoadToS3) \<and>
             finished (st s GeneratePresignedUrl) \<and> finished (st s NotifySlack)) then RunRunning
      else if st s NotifySlack = Failed \<or> st s NotifySlack = UpstreamFailed then RunFailed
      else RunSuccess)"
  by (simp add: run_state_of_def dag_leaves [OF D] all_tasks_def)

lemma mark_step:
  assumes "st r u = NoStatus" and "p \<in> set (upstream D u)"
    and "st r p = Failed \<or> st r p = UpstreamFailed"
  shows "step D (MarkUpstreamFailed u) r = Some (r\<lparr> st := (st r)(u := UpstreamFailed) \<rparr>)"
  using assms by auto

lemma finish_notifier:
  assumes D: "account_monthly_balance_generation P = Inr D"
    and c: "finished (st r CreateTableSnowflake)" and l: "finished (st r LoadToS3)"
    and g: "st r GeneratePresignedUrl = Failed \<or> st r GeneratePresignedUrl = UpstreamFailed"
    and n: "\<not> active (st r NotifySlack)"
  shows "\<exists>es r'. run D es r = Some r' \<and> run_state_of D r' = RunFailed"
proof (cases "st r NotifySlack = NoStatus")
  case True
  let ?r = "r\<lparr> st := (st r)(NotifySlack := UpstreamFailed) \<rparr>"
  have "step D (MarkUpstreamFailed NotifySlack) r = Some ?r"
    by (rule mark_step [OF True _ g]) (simp add: upstream_chain [OF D])
  then have "run D [MarkUpstreamFailed NotifySlack] r = Some ?r" by simp
  moreover from c l g have "run_state_of D ?r = RunFailed"
    by (auto simp: run_state_of_cases [OF D] finished_def)
  ultimately show ?thesis by blast
next
  case False
  with inactive_cases [OF n] have "st r NotifySlack = UpstreamFailed" by simp
  with c l g have "run_state_of D r = RunFailed"
    by (auto simp: run_state_of_cases [OF D] finished_def)
  moreover have "run D [] r = Some r" by simp
  ultimately show ?thesis by blast
qed

lemma finish_link_generator:
  assumes D: "account_monthly_balance_generation P = Inr D" and inv: "chain_inv D r"
    and c: "finished (st r CreateTableSnowflake)"
    and l: "st r LoadToS3 = Failed \<or> st r LoadToS3 = UpstreamFailed"
  shows "\<exists>es r'. run D es r = Some r' \<and> run_state_of D r' = RunFailed"
proof -
  note ch = chain3 [OF D inv]
  from l have lf: "finished (st r LoadToS3)" and ls: "st r LoadToS3 \<noteq> Success"
    by (auto simp: finished_def)
  from edge_ok_inactive [OF ch(2) ls] have g: "\<not> active (st r GeneratePresignedUrl)" .
  show ?thesis
  proof (cases "st r GeneratePresignedUrl = NoStatus")
    case True
    let ?r = "r\<lparr> st := (st r)(GeneratePresignedUrl := UpstreamFailed) \<rparr>"
    have stp: "step D (MarkUpstreamFailed GeneratePresignedUrl) r = Some ?r"
      by (rule mark_step [OF True _ l]) (simp add: upstream_chain [OF D])
    from True have "unfinished (st r GeneratePresignedUrl)" by simp
    with ch(3) have n: "st r NotifySlack = NoStatus" by (rule edge_ok_unfinished_NoStatus)
    have "\<exists>es r'. run D es ?r = Some r' \<and> run_state_of D r' = RunFailed"
      by (rule finish_notifier [OF D]) (use c lf n in simp_all)
    then obtain es r' where "run D es ?r = Some r'" "run_state_of D r' = RunFailed" by blast
    with stp have "run D (MarkUpstreamFailed GeneratePresignedUrl # es) r = Some r'" by simp
    with \<open>run_state_of D r' = RunFailed\<close> show ?thesis by blast
  next
    case False
    with inactive_cases [OF g] have gu: "st r GeneratePresignedUrl = UpstreamFailed" by simp
    then have "st r GeneratePresignedUrl \<noteq> Success" by simp
    from edge_ok_inactive [OF ch(3) this] have "\<not> active (st r NotifySlack)" .
    from finish_notifier [OF D c lf _ this] gu show ?thesis by simp
  qed
qed

lemma finish_loader:
  assumes D: "account_monthly_balance_generation P = Inr D" and inv: "chain_inv D r"
    and c: "st r CreateTableSnowflake = Failed \<or> st r CreateTableSnowflake = UpstreamFailed"
  shows "\<exists>es r'. run D es r = Some r' \<and> run_state_of D r' = RunFailed"
proof -
  note ch = chain3 [OF D inv]
  from c have cf: "finished (st r CreateTableSnowflake)" and cs: "st r CreateTableSnowflake \<noteq> Success"
    by (auto simp: finished_def)
  from edge_ok_inactive [OF ch(1) cs] have l: "\<not> active (st r LoadToS3)" .
  show ?thesis
  proof (cases "st r LoadToS3 = NoStatus")
    case True
    let ?r = "r\<lparr> st := (st r)(LoadToS3 := UpstreamFailed) \<rparr>"
    have stp: "step D (MarkUpstreamFailed LoadToS3) r = Some ?r"
      by (rule mark_step [OF True _ c]) (simp add: upstream_chain [OF D])
    from chain_inv_step [OF D inv stp] have inv': "chain_inv D ?r" .
    have "\<exists>es r'. run D es ?r = Some r' \<and> run_state_of D r' = RunFailed"
      by (rule finish_link_generator [OF D inv']) (use cf in simp_all)
    then obtain es r' where "run D es ?r = Some r'" "run_state_of D r' = RunFailed" by blast
    with stp have "run D (MarkUpstreamFailed LoadToS3 # es) r = Some r'" by simp
    with \<open>run_state_of D r' = RunFailed\<close> show ?thesis by blast
  next
    case False
    with inactive_cases [OF l] have "st r LoadToS3 = UpstreamFailed" by simp
    from finish_link_generator [OF D inv cf] this show ?thesis by simp
  qed
qed

lemma failed_run_completes:
  assumes D: "account_monthly_balance_generation P = Inr D" and inv: "chain_inv D r"
    and f: "st r t = Failed"
  shows "\<exists>es r'. run D es r = Some r' \<and> run_state_of D r' = RunFailed"
proof -
  from f have a: "active (st r t)" and ns: "st r t \<noteq> Success" by (simp_all add: active_def)
  note up = upstream_Success [OF D inv a] and down = downstream_inactive [OF D inv ns]
  show ?thesis
  proof (cases t)
    case CreateTableSnowflake
    with f finish_loader [OF D inv] show ?thesis by simp
  next
    case LoadToS3
    with up have "st r CreateTableSnowflake = Success" by (simp add: earlier_tasks_def all_tasks_def)
    then have "finished (st r CreateTableSnowflake)" by (simp add: finished_def)
    from finish_link_generator [OF D inv this] f LoadToS3 show ?thesis by simp
  next
    case GeneratePresignedUrl
    with up have "st r CreateTableSnowflake = Success" "st r LoadToS3 = Success"
      by (simp_all add: earlier_tasks_def all_tasks_def)
    then have c: "finished (st r CreateTableSnowflake)" "finished (st r LoadToS3)"
      by (simp_all add: finished_def)
    from down GeneratePresignedUrl have "\<not> active (st r NotifySlack)"
      by (simp add: later_tasks_def all_tasks_def)
    from finish_notifier [OF D c _ this] f GeneratePresignedUrl show ?thesis by simp
  next
    case NotifySlack
    with up have "st r CreateTableSnowflake = Success" "st r LoadToS3 = Success"
      "st r GeneratePresignedUrl = Success"
      by (simp_all add: earlier_tasks_def all_tasks_def)
    with f NotifySlack have "run_state_of D r = RunFailed"
      by (simp add: run_state_of_cases [OF D] finished_def)
    moreover have "run D [] r = Some r" by simp
    ultimately show ?thesis by blast
  qed
qed

lemma failed_never_success:
  assumes D: "account_monthly_balance_generation P = Inr D" and inv: "chain_inv D r"
    and f: "st r t = Failed"
  shows "run_state_of D r \<noteq> RunSuccess"
    and "(\<forall>u. finished (st r u)) \<Longrightarrow> run_state_of D r = RunFailed"
proof -
  from f have ns: "st r t \<noteq> Success" by simp
  have n: "st r NotifySlack \<noteq> Success"
  proof (cases "t = NotifySlack")
    case True
    with f show ?thesis by simp
  next
    case False
    then have "NotifySlack \<in> set (later_tasks t)"
      by (cases t) (simp_all add: later_tasks_def all_tasks_def)
    from downstream_inactive [OF D inv ns this] show ?thesis by auto
  qed
  then show "run_state_of D r \<noteq> RunSuccess"
    by (auto simp: run_state_of_cases [OF D] finished_def)
  assume "\<forall>u. finished (st r u)"
  with n show "run_state_of D r = RunFailed"
    by (auto simp: run_state_of_cases [OF D] finished_def)
qed

lemma example_retries: "retries_of example_dag t = 3"
  by (simp add: retries_of_def example_dag_def)

lemma example_execute_failing:
  "execute example_dag failing_env LoadToS3 s = Inl (AirflowNotFoundException ''snowflake_conn_id'')"
  by (simp add: example_dag_def failing_env_def example_env_def execute_sql_def)

lemma example_failure_run:
  "\<exists>s. run example_dag failure_events (init (PARAMS_DEFINITION example_dirname) []) = Some s \<and>
     started s = [CreateTableSnowflake, LoadToS3, LoadToS3, LoadToS3, LoadToS3] \<and>
     map (st s) all_tasks = [Success, Failed, NoStatus, NoStatus] \<and>
     try_number s LoadToS3 = 4 \<and> slack_log s = []"
  by (simp add: failure_events_def init_def example_upstream example_execute
      example_execute_failing example_retries all_tasks_def del: execute.simps)

lemma run_success_notifier:
  assumes D: "account_monthly_balance_generation P = Inr D"
    and ok: "run_state_of D s = RunSuccess"
  shows "st s NotifySlack = Success"
proof (rule ccontr)
  assume n: "st s NotifySlack \<noteq> Success"
  show False
  proof (cases "finished (st s NotifySlack)")
    case True
    with n have "st s NotifySlack = Failed \<or> st s NotifySlack = UpstreamFailed"
      by (simp add: finished_def)
    with ok show False by (simp add: run_state_of_cases [OF D] split: if_splits)
  next
    case False
    with ok show False by (simp add: run_state_of_cases [OF D] split: if_splits)
  qed
qed

lemma successful_run_posts_once:
  assumes D: "account_monthly_balance_generation P = Inr D"
    and run: "run D es (init P log) = Some s"
    and ok: "run_state_of D s = RunSuccess"
  shows "\<exists>url. xcom s = Some url \<and> slack_log s = log @ [send_slack_message url]"
  using reachable_inv(3) [OF D run] run_success_notifier [OF D ok]
  by (simp add: slack_inv_def)

lemma example_success_run_log:
  "\<exists>s. run example_dag success_events (init (PARAMS_DEFINITION example_dirname) log) = Some s \<and>
     (\<forall>t. st s t = Success) \<and>
     slack_log s = log @ [send_slack_message example_url]"
proof -
  have "\<exists>s. run example_dag success_events (init (PARAMS_DEFINITION example_dirname) log) = Some s \<and>
     (st s CreateTableSnowflake = Success \<and> st s LoadToS3 = Success \<and>
      st s GeneratePresignedUrl = Success \<and> st s NotifySlack = Success) \<and>
     slack_log s = log @ [send_slack_message example_url]"
    by (simp add: success_events_def init_def example_upstream example_execute
        del: execute.simps)
  then obtain s where
    s: "run example_dag success_events (init (PARAMS_DEFINITION example_dirname) log) = Some s"
      "st s CreateTableSnowflake = Success \<and> st s LoadToS3 = Success \<and>
        st s GeneratePresignedUrl = Success \<and> st s NotifySlack = Success"
      "slack_log s = log @ [send_slack_message example_url]"
    by (elim exE conjE) (rule that, simp_all)
  have "\<forall>t. st s t = Success"
  proof
    fix t from s(2) show "st s t = Success" by (cases t) simp_all
  qed
  with s(1) s(3) show ?thesis by (intro exI [of _ s] conjI)
qed

lemma all_success_run_state:
  assumes D: "account_monthly_balance_generation P = Inr D"
    and "\<forall>t. st s t = Success"
  shows "run_state_of D s = RunSuccess"
  using assms(2) by (simp add: run_state_of_cases [OF D] finished_def)

lemma s3_ignores_extras: "s3 (conn\<lparr> extra_dejson := extras \<rparr>) = s3 conn"
  by (simp add: s3_def session_def session_client_def)

lemma s3_fields:
  "service_name (s3 conn) = ''s3''"
  "client_access_key_id (s3 conn) = login conn"
  "client_secret_access_key (s3 conn) = password conn"
  "client_region_name (s3 conn) = ''us-east-1''"
  by (simp_all add: s3_def session_def session_client_def)

lemma session_region:
  "region_name (session conn) =
     (case extra_dejson conn ''region_name'' of None \<Rightarrow> ''us-east-1'' | Some r \<Rightarrow> r)"
  by (simp add: session_def dict_get_def)

lemma generate_presigned_url_request:
  assumes "P ''aws_conn_id'' = Some name" and "get_connection env name = Some conn"
  shows "generate_presigned_url env P bucket_name object_key expires_in_sec =
     (case s3_sign env (s3 conn)
             \<lparr> ClientMethod = ''get_object'', Bucket = bucket_name, Key = object_key,
               ExpiresIn = expires_in_sec \<rparr> of
        None \<Rightarrow> Inl SigningError
      | Some url \<Rightarrow> Inr url)"
  using assms by (simp add: generate_presigned_url_def getitem_def)

lemma path_join_queries_last: "last (path_join d ''queries'') = CHR ''s''"
  by (simp add: path_join_def)

lemma params_dom:
  "dom (PARAMS_DEFINITION d) =
     {''snowflake_conn_id'', ''aws_conn_id'', ''queries_base_path'', ''db'', ''schema_origin'',
      ''schema_destination'', ''stage'', ''path'', ''bucket_s3'', ''filename'', ''files_dir''}"
  unfolding PARAMS_DEFINITION_def dom_map_of_conv_image_fst by simp

lemma params_ran:
  "ran (PARAMS_DEFINITION d) =
     {''snowflake_conn_id'', ''aws_conn_id'', path_join d ''queries'', ''NU_CO_DEV_BUSINESS'',
      ''POSTGRES_RDS_PUBLIC'', ''FINANCE_SILVER_TABLES'',
      ''@NU_CO_DEV_BUSINESS.POSTGRES_RDS_PUBLIC.S3_STAGE_STUDY_CASE'', ''output_files'',
      ''terraform-nu-db-pg-48baa6b7'', ''account_monthly_balance.csv'', ''/tmp/balance''}"
proof -
  have "ran (PARAMS_DEFINITION d) = snd ` set
     [(''snowflake_conn_id'', ''snowflake_conn_id''),
      (''aws_conn_id'', ''aws_conn_id''),
      (''queries_base_path'', path_join d ''queries''),
      (''db'', ''NU_CO_DEV_BUSINESS''),
      (''schema_origin'', ''POSTGRES_RDS_PUBLIC''),
      (''schema_destination'', ''FINANCE_SILVER_TABLES''),
      (''stage'', ''@NU_CO_DEV_BUSINESS.POSTGRES_RDS_PUBLIC.S3_STAGE_STUDY_CASE''),
      (''path'', ''output_files''),
      (''bucket_s3'', ''terraform-nu-db-pg-48baa6b7''),
      (''filename'', ''account_monthly_balance.csv''),
      (''files_dir'', path_join ''/tmp'' ''balance'')]"
    unfolding PARAMS_DEFINITION_def by (rule ran_distinct) simp
  also have "path_join ''/tmp'' ''balance'' = ''/tmp/balance''" by (simp add: path_join_def)
  finally show ?thesis by simp
qed

lemma step_Start_try:
  assumes "step D (Start t) s = Some s'"
  shows "try_number s' = (try_number s)(t := try_number s t + 1)"
proof -
  note h = step_Start(1,2) [OF assms]
  then have "step D (Start t) s = Some (s\<lparr> st := (st s)(t := Running),
                    try_number := (try_number s)(t := try_number s t + 1),
                    started := started s @ [t] \<rparr>)" by simp
  with assms have "s' = s\<lparr> st := (st s)(t := Running),
                    try_number := (try_number s)(t := try_number s t + 1),
                    started := started s @ [t] \<rparr>" by simp
  then show ?thesis by simp
qed

lemma step_Finish_try:
  assumes "step D (Finish t env) s = Some s'"
  shows "try_number s' = try_number s"
    and "st s' t = Success \<or>
         (st s' t = UpForRetry \<and> try_number s t \<le> retries_of D t) \<or>
         (st s' t = Failed \<and> \<not> try_number s t \<le> retries_of D t)"
proof -
  from step_Finish(2) [OF assms]
  consider s2 where "execute D env t s = Inr s2" "s' = s2\<lparr> st := (st s2)(t := Success) \<rparr>"
    | e where "execute D env t s = Inl e"
        "s' = s\<lparr> st := (st s)(t := if try_number s t \<le> retries_of D t
                                       then UpForRetry else Failed) \<rparr>"
    by blast
  then have "try_number s' = try_number s \<and>
        (st s' t = Success \<or>
         (st s' t = UpForRetry \<and> try_number s t \<le> retries_of D t) \<or>
         (st s' t = Failed \<and> \<not> try_number s t \<le> retries_of D t))"
  proof cases
    case 1
    from execute_st(3) [OF 1(1)] 1(2) show ?thesis by simp
  next
    case 2
    then show ?thesis by simp
  qed
  then show "try_number s' = try_number s"
    and "st s' t = Success \<or>
         (st s' t = UpForRetry \<and> try_number s t \<le> retries_of D t) \<or>
         (st s' t = Failed \<and> \<not> try_number s t \<le> retries_of D t)" by blast+
qed

lemma step_Mark_try:
  assumes "step D (MarkUpstreamFailed t) s = Some s'"
  shows "try_number s' = try_number s"
proof -
  note h = step_Mark(1,2) [OF assms]
  then have "step D (MarkUpstreamFailed t) s = Some (s\<lparr> st := (st s)(t := UpstreamFailed) \<rparr>)"
    by simp
  with assms have "s' = s\<lparr> st := (st s)(t := UpstreamFailed) \<rparr>" by simp
  then show ?thesis by simp
qed

lemma try_invD:
  assumes "try_inv D s"
  shows "try_ok (retries_of D t) (st s t) (try_number s t)"
    and "try_number s t = length (filter (\<lambda>u. u = t) (started s))"
  using assms unfolding try_inv_def by blast+

lemma try_inv_step:
  assumes inv: "try_inv D s" and stp: "step D e s = Some s'"
  shows "try_inv D s'"
  unfolding try_inv_def
proof
  fix u
  note ok = try_invD(1) [OF inv, of u] and cnt = try_invD(2) [OF inv, of u]
  show "try_ok (retries_of D u) (st s' u) (try_number s' u) \<and>
        try_number s' u = length (filter (\<lambda>x. x = u) (started s'))"
  proof (cases e)
    case (Start t)
    with stp have stp': "step D (Start t) s = Some s'" by simp
    note h = step_Start [OF stp'] and tr = step_Start_try [OF stp']
    show ?thesis
    proof (cases "u = t")
      case True
      from h(1) ok True have "try_ok (retries_of D u) Running (try_number s u + 1)" by auto
      with True cnt show ?thesis by (simp add: h(3) h(4) tr)
    next
      case False
      with ok cnt show ?thesis by (simp add: h(3) h(4) tr)
    qed
  next
    case (Finish t env)
    with stp have stp': "step D (Finish t env) s = Some s'" by simp
    note r = step_Finish(1) [OF stp'] and h = step_Finish_st [OF stp']
      and tr = step_Finish_try [OF stp']
    show ?thesis
    proof (cases "u = t")
      case True
      from ok r True have b: "1 \<le> try_number s t" "try_number s t \<le> retries_of D t + 1" by simp_all
      from tr(2) b have "try_ok (retries_of D t) (st s' t) (try_number s t)" by auto
      with True cnt show ?thesis by (simp add: h(3) tr(1))
    next
      case False
      with h(1) have "st s' u = st s u" by (metis fun_upd_other)
      with ok cnt show ?thesis by (simp add: h(3) tr(1))
    qed
  next
    case (MarkUpstreamFailed t)
    with stp have stp': "step D (MarkUpstreamFailed t) s = Some s'" by simp
    note h = step_Mark [OF stp'] and tr = step_Mark_try [OF stp']
    show ?thesis
    proof (cases "u = t")
      case True
      from h(1) ok True have "try_number s u = 0" by simp
      with True cnt show ?thesis by (simp add: h(3) h(4) tr)
    next
      case False
      with ok cnt show ?thesis by (simp add: h(3) h(4) tr)
    qed
  qed
qed

lemma try_inv_init: "try_inv D (init P log)"
  by (simp add: try_inv_def init_def)

lemma try_inv_reachable:
  assumes "run D es (init P log) = Some s"
  shows "try_inv D s"
  by (rule run_invariant [where I = "try_inv D", OF _ try_inv_init assms]) (rule try_inv_step)

lemma try_ok_bound: "try_ok r x n \<Longrightarrow> n \<le> r + 1"
  by (cases x) simp_all

lemma example_failure_state:
  "run example_dag failure_events (init (PARAMS_DEFINITION example_dirname) []) =
     Some example_failed_state"
  by (simp add: failure_events_def init_def example_upstream example_execute
      example_execute_failing example_retries example_failed_state_def eval_nat_numeral
      del: execute.simps)

section \<open>The claims\<close>

text \<open>
  C4. For every URL string passed to the notifier, the message it posts is the fixed
  prefix text (the check mark and the sentence), a newline, and the URL verbatim:
  whenever the notifier returns, it has appended exactly one post to the channel,
  the post the webhook accepted, and that post's message is the prefix, the newline
  and the URL, unchanged.
\<close>

theorem notifier_message_verbatim:
  assumes "notify_slack env url log = Inr log'"
  shows "\<exists>p. log' = log @ [p] \<and> webhook env p \<and>
           message p = [CHR 0xE2, CHR 0x9C, CHR 0x85]
             @ '' CSV file for monthly account balance is available at:''
             @ [CHR 0x0A] @ url"
  using assms
  by (auto simp: notify_slack_def Let_def send_slack_message_def slack_message_def
      split: if_splits)

theorem notifier_message_verbatim_witness:
  "notify_slack example_env ''https://u'' [] = Inr [send_slack_message ''https://u''] \<and>
   (\<exists>p. [send_slack_message ''https://u''] = [] @ [p] \<and> webhook example_env p \<and>
      message p = [CHR 0xE2, CHR 0x9C, CHR 0x85]
             @ '' CSV file for monthly account balance is available at:''
             @ [CHR 0x0A] @ ''https://u'')"
proof -
  have h: "notify_slack example_env ''https://u'' [] = Inr [send_slack_message ''https://u'']"
    by (simp add: notify_slack_def example_env_def)
  from notifier_message_verbatim [OF h] h show ?thesis by simp
qed

text \<open>
  C1. In every run of the workflow, for every valid run configuration, the four steps
  execute one after the other in the order table provisioner, data loader, link
  generator, notifier: the log of task starts, with repeated attempts of a task
  merged, is an initial part of that order; at most one task is running at any
  time; whenever a task is started, every task before it in the order has
  succeeded and no task is running; in particular the data loader is started only
  in a state in which the table provisioner has succeeded.
\<close>

theorem steps_run_in_order:
  assumes D: "account_monthly_balance_generation P = Inr D"
    and run: "run D es (init P log) = Some s"
  shows "prefix (remdups_adj (started s))
           [CreateTableSnowflake, LoadToS3, GeneratePresignedUrl, NotifySlack] \<and>
         length (filter (\<lambda>t. st s t = Running) all_tasks) \<le> 1 \<and>
         (\<forall>t es1 es2. es = es1 @ Start t # es2 \<longrightarrow>
            (\<exists>s1. run D es1 (init P log) = Some s1 \<and>
               (\<forall>u \<in> set (earlier_tasks t). st s1 u = Success) \<and>
               (\<forall>u. st s1 u \<noteq> Running))) \<and>
         (\<forall>es1 es2. es = es1 @ Start LoadToS3 # es2 \<longrightarrow>
            (\<exists>s1. run D es1 (init P log) = Some s1 \<and> st s1 CreateTableSnowflake = Success))"
proof (intro conjI allI impI)
  note inv = reachable_inv [OF D run]
  from active_prefix [OF D inv(1)] inv(2)
  show "prefix (remdups_adj (started s))
          [CreateTableSnowflake, LoadToS3, GeneratePresignedUrl, NotifySlack]"
    by (simp add: log_inv_def all_tasks_def)
  from running_count [OF D inv(1)]
  show "length (filter (\<lambda>t. st s t = Running) all_tasks) \<le> 1" .
next
  fix t es1 es2 assume "es = es1 @ Start t # es2"
  with run have "run D (es1 @ Start t # es2) (init P log) = Some s" by simp
  from start_after_success [OF D this]
  show "\<exists>s1. run D es1 (init P log) = Some s1 \<and>
          (\<forall>u \<in> set (earlier_tasks t). st s1 u = Success) \<and> (\<forall>u. st s1 u \<noteq> Running)" .
next
  fix es1 es2 assume "es = es1 @ Start LoadToS3 # es2"
  with run have "run D (es1 @ Start LoadToS3 # es2) (init P log) = Some s" by simp
  from start_after_success [OF D this] obtain s1 where
    s1: "run D es1 (init P log) = Some s1" "\<forall>u \<in> set (earlier_tasks LoadToS3). st s1 u = Success"
    by blast
  from s1(2) have "st s1 CreateTableSnowflake = Success"
    by (simp add: earlier_tasks_def all_tasks_def)
  with s1(1) show "\<exists>s1. run D es1 (init P log) = Some s1 \<and> st s1 CreateTableSnowflake = Success"
    by blast
qed

theorem steps_run_in_order_witness:
  "account_monthly_balance_generation (PARAMS_DEFINITION example_dirname) = Inr example_dag \<and>
   (\<exists>s. run example_dag success_events (init (PARAMS_DEFINITION example_dirname) []) = Some s \<and>
      started s = [CreateTableSnowflake, LoadToS3, GeneratePresignedUrl, NotifySlack] \<and>
      prefix (remdups_adj (started s))
        [CreateTableSnowflake, LoadToS3, GeneratePresignedUrl, NotifySlack] \<and>
      length (filter (\<lambda>t. st s t = Running) all_tasks) \<le> 1 \<and>
      (\<exists>s1. run example_dag [Start CreateTableSnowflake, Finish CreateTableSnowflake example_env]
               (init (PARAMS_DEFINITION example_dirname) []) = Some s1 \<and>
            st s1 CreateTableSnowflake = Success))"
proof -
  from example_success_run obtain s where
    s: "run example_dag success_events (init (PARAMS_DEFINITION example_dirname) []) = Some s"
       "started s = [CreateTableSnowflake, LoadToS3, GeneratePresignedUrl, NotifySlack]"
    by blast
  note t = steps_run_in_order [OF example_dag_ok s(1)]
  have "success_events =
      [Start CreateTableSnowflake, Finish CreateTableSnowflake example_env] @
      Start LoadToS3 # [Finish LoadToS3 example_env,
        Start GeneratePresignedUrl, Finish GeneratePresignedUrl example_env,
        Start NotifySlack, Finish NotifySlack example_env]"
    by (simp add: success_events_def)
  with t have "\<exists>s1. run example_dag [Start CreateTableSnowflake, Finish CreateTableSnowflake example_env]
               (init (PARAMS_DEFINITION example_dirname) []) = Some s1 \<and>
            st s1 CreateTableSnowflake = Success" by blast
  with t s example_dag_ok show ?thesis by blast
qed

text \<open>
  C2. If a step fails, no later step executes, and the run is marked failed. In every
  run, once a task is in state failed (its attempts are used up), it stays failed;
  however the run continues, the tasks after it are never started, never running
  and never successful; the run is never marked successful, it is marked failed as
  soon as every task is finished, and the engine can always bring it there. For
  the data loader the later tasks are the link generator and the notifier.
\<close>

theorem failure_halts_run:
  assumes D: "account_monthly_balance_generation P = Inr D"
    and run: "run D es (init P log) = Some s"
    and f: "st s t = Failed"
    and cont: "run D es' s = Some s'"
  shows "st s' t = Failed \<and>
         (\<forall>u \<in> set (later_tasks t).
            u \<notin> set (started s') \<and> st s' u \<noteq> Running \<and> st s' u \<noteq> Success) \<and>
         run_state_of D s' \<noteq> RunSuccess \<and>
         ((\<forall>u. finished (st s' u)) \<longrightarrow> run_state_of D s' = RunFailed) \<and>
         (\<exists>es'' s''. run D es'' s' = Some s'' \<and> run_state_of D s'' = RunFailed) \<and>
         later_tasks LoadToS3 = [GeneratePresignedUrl, NotifySlack]"
proof -
  from f have "finished (st s t)" by (simp add: finished_def)
  from finished_stable [OF cont this] f have f': "st s' t = Failed" by simp
  from run cont have run': "run D (es @ es') (init P log) = Some s'" by (simp add: run_append)
  note inv = reachable_inv [OF D run']
  from f' have ns: "st s' t \<noteq> Success" by simp
  have later: "\<forall>u \<in> set (later_tasks t).
            u \<notin> set (started s') \<and> st s' u \<noteq> Running \<and> st s' u \<noteq> Success"
  proof
    fix u assume "u \<in> set (later_tasks t)"
    from downstream_inactive [OF D inv(1) ns this] have "\<not> active (st s' u)" .
    then show "u \<notin> set (started s') \<and> st s' u \<noteq> Running \<and> st s' u \<noteq> Success"
      by (auto simp: started_set [OF inv(2)] active_def)
  qed
  have l: "later_tasks LoadToS3 = [GeneratePresignedUrl, NotifySlack]"
    by (simp add: later_tasks_def all_tasks_def)
  from f' later failed_never_success [OF D inv(1) f'] failed_run_completes [OF D inv(1) f'] l
  show ?thesis by blast
qed

theorem failure_halts_run_witness:
  "account_monthly_balance_generation (PARAMS_DEFINITION example_dirname) = Inr example_dag \<and>
   (\<exists>s s'. run example_dag failure_events (init (PARAMS_DEFINITION example_dirname) []) = Some s \<and>
      st s LoadToS3 = Failed \<and>
      run example_dag [MarkUpstreamFailed GeneratePresignedUrl, MarkUpstreamFailed NotifySlack] s
        = Some s' \<and>
      st s' LoadToS3 = Failed \<and>
      GeneratePresignedUrl \<notin> set (started s') \<and> NotifySlack \<notin> set (started s') \<and>
      st s' GeneratePresignedUrl = UpstreamFailed \<and> st s' NotifySlack = UpstreamFailed \<and>
      run_state_of example_dag s' = RunFailed)"
proof -
  from example_failure_run obtain s where
    s: "run example_dag failure_events (init (PARAMS_DEFINITION example_dirname) []) = Some s"
    and st: "st s CreateTableSnowflake = Success" "st s LoadToS3 = Failed"
      "st s GeneratePresignedUrl = NoStatus" "st s NotifySlack = NoStatus"
    by (auto simp: all_tasks_def)
  let ?s' = "s\<lparr> st := (st s)(GeneratePresignedUrl := UpstreamFailed, NotifySlack := UpstreamFailed) \<rparr>"
  have c: "run example_dag [MarkUpstreamFailed GeneratePresignedUrl, MarkUpstreamFailed NotifySlack] s
      = Some ?s'"
    by (simp add: st example_upstream)
  note t = failure_halts_run [OF example_dag_ok s st(2) c]
  have fin: "\<forall>u. finished (st ?s' u)"
  proof
    fix u show "finished (st ?s' u)" by (cases u) (simp_all add: st finished_def)
  qed
  from t have 1: "st ?s' LoadToS3 = Failed" by blast
  from t have 2: "GeneratePresignedUrl \<notin> set (started ?s')" "NotifySlack \<notin> set (started ?s')"
    by simp_all
  from t fin have 3: "run_state_of example_dag ?s' = RunFailed" by blast
  have 4: "st ?s' GeneratePresignedUrl = UpstreamFailed" "st ?s' NotifySlack = UpstreamFailed"
    by simp_all
  from example_dag_ok s st(2) c 1 2 3 4 show ?thesis by blast
qed

text \<open>
  C6. The workflow is not idempotent at the notifier. A complete run (one the engine
  marks successful) appends exactly one message to the channel, the notifier's text
  with the link generator's return value; a second complete run, started on the
  channel as the first one left it, appends one more: after two runs the channel
  holds two notification messages more than before, and nothing guards against the
  duplicate.
\<close>

theorem notification_not_idempotent:
  assumes D: "account_monthly_balance_generation P = Inr D"
    and run1: "run D es1 (init P log) = Some s1"
    and ok1: "run_state_of D s1 = RunSuccess"
    and run2: "run D es2 (init P (slack_log s1)) = Some s2"
    and ok2: "run_state_of D s2 = RunSuccess"
  shows "(\<exists>url1 url2. xcom s1 = Some url1 \<and> xcom s2 = Some url2 \<and>
            slack_log s1 = log @ [send_slack_message url1] \<and>
            slack_log s2 = log @ [send_slack_message url1, send_slack_message url2]) \<and>
         length (slack_log s1) = length log + 1 \<and>
         length (slack_log s2) = length log + 2 \<and>
         slack_log s2 \<noteq> slack_log s1"
proof -
  from successful_run_posts_once [OF D run1 ok1] obtain url1 where
    1: "xcom s1 = Some url1" "slack_log s1 = log @ [send_slack_message url1]" by blast
  from successful_run_posts_once [OF D run2 ok2] obtain url2 where
    2: "xcom s2 = Some url2" "slack_log s2 = slack_log s1 @ [send_slack_message url2]" by blast
  from 1(2) 2(2) have 3: "slack_log s2 = log @ [send_slack_message url1, send_slack_message url2]"
    by simp
  from 2(2) have "length (slack_log s2) \<noteq> length (slack_log s1)" by simp
  then have 4: "slack_log s2 \<noteq> slack_log s1" by auto
  from 1 2(1) 3 have "\<exists>url1 url2. xcom s1 = Some url1 \<and> xcom s2 = Some url2 \<and>
            slack_log s1 = log @ [send_slack_message url1] \<and>
            slack_log s2 = log @ [send_slack_message url1, send_slack_message url2]" by blast
  moreover from 1(2) have "length (slack_log s1) = length log + 1" by simp
  moreover from 3 have "length (slack_log s2) = length log + 2" by simp
  ultimately show ?thesis using 4 by blast
qed

theorem notification_not_idempotent_witness:
  "account_monthly_balance_generation (PARAMS_DEFINITION example_dirname) = Inr example_dag \<and>
   (\<exists>s1 s2.
      run example_dag success_events (init (PARAMS_DEFINITION example_dirname) []) = Some s1 \<and>
      run_state_of example_dag s1 = RunSuccess \<and>
      run example_dag success_events (init (PARAMS_DEFINITION example_dirname) (slack_log s1))
        = Some s2 \<and>
      run_state_of example_dag s2 = RunSuccess \<and>
      length (slack_log s1) = 1 \<and> length (slack_log s2) = 2 \<and>
      slack_log s2 \<noteq> slack_log s1)"
proof -
  from example_success_run_log [of "[]"] obtain s1 where
    s1: "run example_dag success_events (init (PARAMS_DEFINITION example_dirname) []) = Some s1"
        "\<forall>t. st s1 t = Success" by (elim exE conjE) (rule that)
  from example_success_run_log [of "slack_log s1"] obtain s2 where
    s2: "run example_dag success_events (init (PARAMS_DEFINITION example_dirname) (slack_log s1))
           = Some s2"
        "\<forall>t. st s2 t = Success" by (elim exE conjE) (rule that)
  note ok1 = all_success_run_state [OF example_dag_ok s1(2)]
    and ok2 = all_success_run_state [OF example_dag_ok s2(2)]
  note t = notification_not_idempotent [OF example_dag_ok s1(1) ok1 s2(1) ok2]
  from t [THEN conjunct2] have l: "length (slack_log s1) = 1" "length (slack_log s2) = 2"
    "slack_log s2 \<noteq> slack_log s1" by simp_all
  have "run example_dag success_events (init (PARAMS_DEFINITION example_dirname) []) = Some s1 \<and>
      run_state_of example_dag s1 = RunSuccess \<and>
      run example_dag success_events (init (PARAMS_DEFINITION example_dirname) (slack_log s1))
        = Some s2 \<and>
      run_state_of example_dag s2 = RunSuccess \<and>
      length (slack_log s1) = 1 \<and> length (slack_log s2) = 2 \<and>
      slack_log s2 \<noteq> slack_log s1"
    by (intro conjI) (rule s1(1) ok1 s2(1) ok2 l)+
  then have "\<exists>s1 s2.
      run example_dag success_events (init (PARAMS_DEFINITION example_dirname) []) = Some s1 \<and>
      run_state_of example_dag s1 = RunSuccess \<and>
      run example_dag success_events (init (PARAMS_DEFINITION example_dirname) (slack_log s1))
        = Some s2 \<and>
      run_state_of example_dag s2 = RunSuccess \<and>
      length (slack_log s1) = 1 \<and> length (slack_log s2) = 2 \<and>
      slack_log s2 \<noteq> slack_log s1"
    by (intro exI)
  with example_dag_ok show ?thesis by (rule conjI)
qed

text \<open>
  C8. The run configuration is one mapping, given when the workflow is defined, and
  it does not change during a run: in every state of every run the module's
  configuration is the mapping the workflow was defined from; both SQL operators
  carry that same mapping as their parameters and the same connection identifier,
  the one stored under \<^verbatim>\<open>snowflake_conn_id\<close>; and the link generator's arguments
  are read from it.
\<close>

theorem run_configuration_fixed:
  assumes D: "account_monthly_balance_generation P = Inr D"
    and run: "run D es (init P log) = Some s"
  shows "params_definition s = P \<and>
         op_params (create_table_snowflake D) = P \<and>
         op_params (load_to_s3 D) = P \<and>
         conn_id (create_table_snowflake D) = conn_id (load_to_s3 D) \<and>
         P ''snowflake_conn_id'' = Some (conn_id (create_table_snowflake D)) \<and>
         (\<exists>bucket path filename.
            P ''bucket_s3'' = Some bucket \<and> P ''path'' = Some path \<and>
            P ''filename'' = Some filename \<and>
            presigned_url_args D = (bucket, path @ ''/'' @ filename, 604800))"
proof -
  note f = dag_fields [OF D]
  have "\<exists>bucket path filename.
            P ''bucket_s3'' = Some bucket \<and> P ''path'' = Some path \<and>
            P ''filename'' = Some filename \<and>
            presigned_url_args D = (bucket, path @ ''/'' @ filename, 604800)"
    using D
    by (auto simp: account_monthly_balance_generation_def getitem_def
        split: sum.splits option.splits)
  with reachable_inv(4) [OF D run] f(3) f(4) f(5) f(6) show ?thesis by simp
qed

theorem run_configuration_fixed_witness:
  "account_monthly_balance_generation (PARAMS_DEFINITION example_dirname) = Inr example_dag \<and>
   (\<exists>s. run example_dag success_events (init (PARAMS_DEFINITION example_dirname) []) = Some s \<and>
      params_definition s = PARAMS_DEFINITION example_dirname \<and>
      op_params (create_table_snowflake example_dag) = PARAMS_DEFINITION example_dirname \<and>
      op_params (load_to_s3 example_dag) = PARAMS_DEFINITION example_dirname \<and>
      conn_id (create_table_snowflake example_dag) = ''snowflake_conn_id'' \<and>
      conn_id (load_to_s3 example_dag) = ''snowflake_conn_id'')"
proof -
  from example_success_run_log [of "[]"] obtain s where
    s: "run example_dag success_events (init (PARAMS_DEFINITION example_dirname) []) = Some s"
    by (elim exE conjE) (rule that)
  note t = run_configuration_fixed [OF example_dag_ok s]
  have c: "conn_id (create_table_snowflake example_dag) = ''snowflake_conn_id''"
    "conn_id (load_to_s3 example_dag) = ''snowflake_conn_id''"
    by (simp_all add: example_dag_def)
  from t have "params_definition s = PARAMS_DEFINITION example_dirname"
    "op_params (create_table_snowflake example_dag) = PARAMS_DEFINITION example_dirname"
    "op_params (load_to_s3 example_dag) = PARAMS_DEFINITION example_dirname" by simp_all
  with example_dag_ok s c show ?thesis by blast
qed

text \<open>
  C3. Under the reference configuration the link generator is called with the bucket
  \<^verbatim>\<open>terraform-nu-db-pg-48baa6b7\<close>, the key \<^verbatim>\<open>output_files/account_monthly_balance.csv\<close>
  (the path, a slash, the file name) and the expiration 604800, and what it does with
  a resolved connection is one signing request: \<^verbatim>\<open>get_object\<close> on that bucket and
  key with that expiration. For any arguments the request carries exactly the
  bucket, key and expiration it was given.
\<close>

theorem link_generator_request:
  assumes D: "account_monthly_balance_generation (PARAMS_DEFINITION dirname) = Inr D"
    and P: "params_definition s = PARAMS_DEFINITION dirname"
    and conn: "get_connection env ''aws_conn_id'' = Some conn"
  shows "presigned_url_args D =
           (''terraform-nu-db-pg-48baa6b7'', ''output_files/account_monthly_balance.csv'', 604800) \<and>
         ''output_files/account_monthly_balance.csv'' =
           ''output_files'' @ ''/'' @ ''account_monthly_balance.csv'' \<and>
         execute D env GeneratePresignedUrl s =
           (case s3_sign env (s3 conn)
                   \<lparr> ClientMethod = ''get_object'', Bucket = ''terraform-nu-db-pg-48baa6b7'',
                     Key = ''output_files/account_monthly_balance.csv'', ExpiresIn = 604800 \<rparr> of
              None \<Rightarrow> Inl SigningError
            | Some url \<Rightarrow> Inr (s\<lparr>xcom := Some url\<rparr>)) \<and>
         generate_presigned_url env (PARAMS_DEFINITION dirname) bucket_name object_key expires_in_sec =
           (case s3_sign env (s3 conn)
                   \<lparr> ClientMethod = ''get_object'', Bucket = bucket_name, Key = object_key,
                     ExpiresIn = expires_in_sec \<rparr> of
              None \<Rightarrow> Inl SigningError
            | Some url \<Rightarrow> Inr url)"
proof -
  from D have args: "presigned_url_args D =
      (''terraform-nu-db-pg-48baa6b7'', ''output_files/account_monthly_balance.csv'', 604800)"
    by (simp add: reference_dag) auto
  note g = generate_presigned_url_request [where P = "PARAMS_DEFINITION dirname",
      OF params_lookup(2) conn]
  have "execute D env GeneratePresignedUrl s =
           (case s3_sign env (s3 conn)
                   \<lparr> ClientMethod = ''get_object'', Bucket = ''terraform-nu-db-pg-48baa6b7'',
                     Key = ''output_files/account_monthly_balance.csv'', ExpiresIn = 604800 \<rparr> of
              None \<Rightarrow> Inl SigningError
            | Some url \<Rightarrow> Inr (s\<lparr>xcom := Some url\<rparr>))"
    by (simp add: args P g split: option.splits)
  with args g show ?thesis by simp
qed

theorem link_generator_request_witness:
  "account_monthly_balance_generation (PARAMS_DEFINITION example_dirname) = Inr example_dag \<and>
   get_connection example_env ''aws_conn_id'' = Some example_conn \<and>
   presigned_url_args example_dag =
     (''terraform-nu-db-pg-48baa6b7'', ''output_files/account_monthly_balance.csv'', 604800) \<and>
   execute example_dag example_env GeneratePresignedUrl (init (PARAMS_DEFINITION example_dirname) []) =
     Inr ((init (PARAMS_DEFINITION example_dirname) [])\<lparr>xcom := Some example_url\<rparr>)"
proof -
  have c: "get_connection example_env ''aws_conn_id'' = Some example_conn"
    by (simp add: example_env_def)
  have p: "params_definition (init (PARAMS_DEFINITION example_dirname) []) =
      PARAMS_DEFINITION example_dirname" by (simp add: init_def)
  note t = link_generator_request [OF example_dag_ok p c]
  have "s3_sign example_env (s3 example_conn)
          \<lparr> ClientMethod = ''get_object'', Bucket = ''terraform-nu-db-pg-48baa6b7'',
            Key = ''output_files/account_monthly_balance.csv'', ExpiresIn = 604800 \<rparr> =
        Some example_url"
    by (simp add: example_env_def example_url_def)
  with t example_dag_ok c show ?thesis by (simp del: execute.simps)
qed

text \<open>
  C5. The link generator authenticates with the credentials of the named AWS
  connection. The access key and the secret of the signing client are the
  connection's, but its region is not: for a connection whose region is
  \<^verbatim>\<open>eu-west-1\<close> the session is built with \<^verbatim>\<open>eu-west-1\<close> (lines 90 to 94) and the
  client that signs is created with \<^verbatim>\<open>us-east-1\<close> (line 96).
\<close>

theorem link_generator_region_not_from_connection:
  "extra_dejson example_conn ''region_name'' = Some ''eu-west-1'' \<and>
   region_name (session example_conn) = ''eu-west-1'' \<and>
   client_access_key_id (s3 example_conn) = login example_conn \<and>
   client_secret_access_key (s3 example_conn) = password example_conn \<and>
   client_region_name (s3 example_conn) = ''us-east-1'' \<and>
   client_region_name (s3 example_conn) \<noteq> region_name (session example_conn)"
  by (simp add: s3_fields session_region) (simp add: example_conn_def)

text \<open>
  C9. When the connection's extra fields have no \<^verbatim>\<open>region_name\<close>, the session's
  region is \<^verbatim>\<open>us-east-1\<close>. The client that signs has region \<^verbatim>\<open>us-east-1\<close> whatever
  the connection says: the client, and with it the link generator's result, is the
  same for every value of the connection's extra fields.
\<close>

theorem signing_region_always_us_east_1:
  "(extra_dejson conn ''region_name'' = None \<longrightarrow> region_name (session conn) = ''us-east-1'') \<and>
   client_region_name (s3 conn) = ''us-east-1'' \<and>
   s3 (conn\<lparr> extra_dejson := extras \<rparr>) = s3 conn \<and>
   generate_presigned_url
       (env\<lparr> get_connection := (get_connection env)(name \<mapsto> conn\<lparr> extra_dejson := extras \<rparr>) \<rparr>)
       P bucket_name object_key expires_in_sec =
     generate_presigned_url
       (env\<lparr> get_connection := (get_connection env)(name \<mapsto> conn) \<rparr>)
       P bucket_name object_key expires_in_sec"
  by (simp add: session_region s3_fields s3_ignores_extras generate_presigned_url_def
      split: sum.splits option.splits)

theorem signing_region_always_us_east_1_witness:
  "extra_dejson (example_conn\<lparr> extra_dejson := Map.empty \<rparr>) ''region_name'' = None \<and>
   region_name (session (example_conn\<lparr> extra_dejson := Map.empty \<rparr>)) = ''us-east-1'' \<and>
   client_region_name (s3 example_conn) = ''us-east-1'' \<and>
   s3 (example_conn\<lparr> extra_dejson := Map.empty \<rparr>) = s3 example_conn"
  using signing_region_always_us_east_1 [of "example_conn\<lparr> extra_dejson := Map.empty \<rparr>"]
    signing_region_always_us_east_1 [of example_conn Map.empty]
  by simp

text \<open>
  C10. The notifier's connection name \<^verbatim>\<open>slack_webhook_conn\<close> and user name
  \<^verbatim>\<open>airflow-bot\<close> are literals of the notifier, not entries of the run
  configuration: every post carries them; the configuration has eleven keys, none
  for them, and neither string is one of its values; and what the notifier posts
  is the same for any two workflow definitions and any two states of the module
  configuration, as long as the URL and the channel are the same.
\<close>

theorem notifier_constants_not_configurable:
  assumes "xcom s = xcom s'" and "slack_log s = slack_log s'"
  shows "slack_webhook_conn_id (send_slack_message url) = ''slack_webhook_conn'' \<and>
         username (send_slack_message url) = ''airflow-bot'' \<and>
         dom (PARAMS_DEFINITION dirname) =
           {''snowflake_conn_id'', ''aws_conn_id'', ''queries_base_path'', ''db'',
            ''schema_origin'', ''schema_destination'', ''stage'', ''path'', ''bucket_s3'',
            ''filename'', ''files_dir''} \<and>
         ''slack_webhook_conn'' \<notin> ran (PARAMS_DEFINITION dirname) \<and>
         ''airflow-bot'' \<notin> ran (PARAMS_DEFINITION dirname) \<and>
         map_sum id slack_log (execute D env NotifySlack s) =
           map_sum id slack_log (execute D' env NotifySlack s')"
proof -
  have 1: "slack_webhook_conn_id (send_slack_message url) = ''slack_webhook_conn''"
    "username (send_slack_message url) = ''airflow-bot''"
    by (simp_all add: send_slack_message_def)
  have q: "path_join dirname ''queries'' \<noteq> ''slack_webhook_conn''"
    "path_join dirname ''queries'' \<noteq> ''airflow-bot''"
    using path_join_queries_last [of dirname] by auto
  have 2: "''slack_webhook_conn'' \<notin> ran (PARAMS_DEFINITION dirname)"
    using q(1) by (simp add: params_ran) 
  have 3: "''airflow-bot'' \<notin> ran (PARAMS_DEFINITION dirname)"
    using q(2) by (simp add: params_ran)
  have 4: "map_sum id slack_log (execute D env NotifySlack s) =
           map_sum id slack_log (execute D' env NotifySlack s')"
    using assms by (simp add: notify_slack_def Let_def split: option.splits)
  from 1 2 3 4 params_dom [of dirname] show ?thesis by simp
qed

theorem notifier_constants_not_configurable_witness:
  "xcom ((init (PARAMS_DEFINITION example_dirname) [])\<lparr>xcom := Some example_url\<rparr>) =
     xcom ((init Map.empty [])\<lparr>xcom := Some example_url\<rparr>) \<and>
   slack_log ((init (PARAMS_DEFINITION example_dirname) [])\<lparr>xcom := Some example_url\<rparr>) =
     slack_log ((init Map.empty [])\<lparr>xcom := Some example_url\<rparr>) \<and>
   map_sum id slack_log
     (execute example_dag example_env NotifySlack
        ((init (PARAMS_DEFINITION example_dirname) [])\<lparr>xcom := Some example_url\<rparr>)) =
   map_sum id slack_log
     (execute example_dag example_env NotifySlack ((init Map.empty [])\<lparr>xcom := Some example_url\<rparr>)) \<and>
   map_sum id slack_log
     (execute example_dag example_env NotifySlack ((init Map.empty [])\<lparr>xcom := Some example_url\<rparr>)) =
     Inr [\<lparr> slack_webhook_conn_id = ''slack_webhook_conn'', message = slack_message example_url,
            username = ''airflow-bot'' \<rparr>]"
proof -
  have a: "xcom ((init (PARAMS_DEFINITION example_dirname) [])\<lparr>xcom := Some example_url\<rparr>) =
     xcom ((init Map.empty [])\<lparr>xcom := Some example_url\<rparr>)" by simp
  have b: "slack_log ((init (PARAMS_DEFINITION example_dirname) [])\<lparr>xcom := Some example_url\<rparr>) =
     slack_log ((init Map.empty [])\<lparr>xcom := Some example_url\<rparr>)" by (simp add: init_def)
  note t = notifier_constants_not_configurable [OF a b, of example_url example_dirname
      example_dag example_env example_dag]
  have c: "map_sum id slack_log
     (execute example_dag example_env NotifySlack ((init Map.empty [])\<lparr>xcom := Some example_url\<rparr>)) =
     Inr [\<lparr> slack_webhook_conn_id = ''slack_webhook_conn'', message = slack_message example_url,
            username = ''airflow-bot'' \<rparr>]"
    by (simp add: notify_slack_def example_env_def init_def send_slack_message_def)
  from t a b c show ?thesis by simp
qed

text \<open>
  C7. Every step has the same retry setting, the workflow's default of 3 retries, and
  no step sets one of its own. A budget of 3 attempts does not hold: with 3
  retries a step is attempted up to 4 times. In the example run the loader, whose
  retries are 3, is started 4 times before it fails.
\<close>

theorem three_attempts_counterexample:
  "account_monthly_balance_generation (PARAMS_DEFINITION example_dirname) = Inr example_dag \<and>
   run example_dag failure_events (init (PARAMS_DEFINITION example_dirname) []) =
     Some example_failed_state \<and>
   retries_of example_dag LoadToS3 = 3 \<and>
   try_number example_failed_state LoadToS3 = 4 \<and>
   count_list (started example_failed_state) LoadToS3 = 4 \<and>
   \<not> try_number example_failed_state LoadToS3 \<le> 3"
  using example_dag_ok example_failure_state example_retries [of LoadToS3]
  by (simp add: example_failed_state_def)

text \<open>
  C7, as amended. For every valid configuration the default \<^verbatim>\<open>retries\<close> of the
  workflow is 3, no task carries a \<^verbatim>\<open>retries\<close> argument, and the retries in force
  for each task are 3. In every run each task is governed by that one budget: it is
  attempted at most 4 times (the first try and 3 retries), its attempt number is
  the number of its starts in the log, it waits for a retry only after at most 3
  attempts, and it has failed for good exactly when its 4th attempt has failed.
\<close>

theorem uniform_retries_four_attempts:
  assumes D: "account_monthly_balance_generation P = Inr D"
    and run: "run D es (init P log) = Some s"
  shows "retries (dag_default_args D) = 3 \<and>
         (\<forall>t. task_retries D t = None \<and> retries_of D t = 3 \<and>
              try_number s t = length (filter (\<lambda>u. u = t) (started s)) \<and>
              try_number s t \<le> 4 \<and>
              (st s t = UpForRetry \<longrightarrow> 1 \<le> try_number s t \<and> try_number s t \<le> 3) \<and>
              (st s t = Failed \<longrightarrow> try_number s t = 4))"
proof -
  have r: "\<And>t. retries_of D t = 3" using dag_fields(1,2) [OF D] by (simp add: retries_of_def)
  have "\<And>t. try_number s t = length (filter (\<lambda>u. u = t) (started s)) \<and>
              try_number s t \<le> 4 \<and>
              (st s t = UpForRetry \<longrightarrow> 1 \<le> try_number s t \<and> try_number s t \<le> 3) \<and>
              (st s t = Failed \<longrightarrow> try_number s t = 4)"
  proof -
    fix t
    note inv = try_inv_reachable [OF run]
    from try_invD(1) [OF inv, of t] have ok: "try_ok 3 (st s t) (try_number s t)"
      by (simp only: r)
    note cnt = try_invD(2) [OF inv, of t]
    from try_ok_bound [OF ok] have "try_number s t \<le> 4" by simp
    moreover from ok have "st s t = UpForRetry \<longrightarrow> 1 \<le> try_number s t \<and> try_number s t \<le> 3"
      by auto
    moreover from ok have "st s t = Failed \<longrightarrow> try_number s t = 4" by auto
    ultimately show "try_number s t = length (filter (\<lambda>u. u = t) (started s)) \<and>
              try_number s t \<le> 4 \<and>
              (st s t = UpForRetry \<longrightarrow> 1 \<le> try_number s t \<and> try_number s t \<le> 3) \<and>
              (st s t = Failed \<longrightarrow> try_number s t = 4)" using cnt by simp
  qed
  note core = this
  have n: "\<And>t. task_retries D t = None" by (simp add: dag_fields(1) [OF D])
  have d: "retries (dag_default_args D) = 3" by (simp add: dag_fields(2) [OF D])
  show ?thesis
  proof (intro conjI allI)
    show "retries (dag_default_args D) = 3" by (rule d)
  next
    fix t show "task_retries D t = None" by (rule n)
  next
    fix t show "retries_of D t = 3" by (rule r)
  next
    fix t from core [of t]
    show "try_number s t = length (filter (\<lambda>u. u = t) (started s))" by (rule conjunct1)
  next
    fix t from core [of t] show "try_number s t \<le> 4" by blast
  next
    fix t from core [of t]
    show "st s t = UpForRetry \<longrightarrow> 1 \<le> try_number s t \<and> try_number s t \<le> 3" by blast
  next
    fix t from core [of t] show "st s t = Failed \<longrightarrow> try_number s t = 4" by blast
  qed
qed

theorem uniform_retries_four_attempts_witness:
  "account_monthly_balance_generation (PARAMS_DEFINITION example_dirname) = Inr example_dag \<and>
   run example_dag failure_events (init (PARAMS_DEFINITION example_dirname) []) =
     Some example_failed_state \<and>
   st example_failed_state LoadToS3 = Failed \<and>
   retries (dag_default_args example_dag) = 3 \<and>
   map (retries_of example_dag) all_tasks = [3, 3, 3, 3] \<and>
   map (task_retries example_dag) all_tasks = [None, None, None, None] \<and>
   try_number example_failed_state LoadToS3 = 4 \<and>
   try_number example_failed_state CreateTableSnowflake \<le> 4"
proof -
  note t = uniform_retries_four_attempts [OF example_dag_ok example_failure_state]
  have f: "st example_failed_state LoadToS3 = Failed" by (simp add: example_failed_state_def)
  from t have a: "retries (dag_default_args example_dag) = 3" by (rule conjunct1)
  from t have all: "\<forall>t. task_retries example_dag t = None \<and> retries_of example_dag t = 3 \<and>
      try_number example_failed_state t =
        length (filter (\<lambda>u. u = t) (started example_failed_state)) \<and>
      try_number example_failed_state t \<le> 4 \<and>
      (st example_failed_state t = UpForRetry \<longrightarrow>
         1 \<le> try_number example_failed_state t \<and> try_number example_failed_state t \<le> 3) \<and>
      (st example_failed_state t = Failed \<longrightarrow> try_number example_failed_state t = 4)"
    by (rule conjunct2)
  from all have b: "\<And>t. task_retries example_dag t = None" "\<And>t. retries_of example_dag t = 3"
    by blast+
  from all have c: "try_number example_failed_state CreateTableSnowflake \<le> 4" by blast
  from all f have d: "try_number example_failed_state LoadToS3 = 4" by blast
  have m: "map (retries_of example_dag) all_tasks = [3, 3, 3, 3]"
    "map (task_retries example_dag) all_tasks = [None, None, None, None]"
    by (simp_all add: all_tasks_def b)
  show ?thesis
    by (intro conjI) (rule example_dag_ok example_failure_state f a m c d)+
qed

end
